theory Spec2Isabelle
  imports Main "HOL-Library.AList" "HOL-Library.Multiset" "HOL-Library.Product_Lexorder"
begin

section \<open>Dashboard widget grid: data model\<close>

text \<open>
  A widget layout is the object \<^verbatim>\<open>{ x, y, w, h }\<close> of the dashboard grid.  The source
  fields \<^verbatim>\<open>x\<close>, \<^verbatim>\<open>y\<close>, \<^verbatim>\<open>w\<close>, \<^verbatim>\<open>h\<close> are JavaScript numbers; they are modelled as
  integers (grid units) and named \<open>x_pos\<close>, \<open>y_pos\<close>, \<open>width\<close>, \<open>height\<close> so that the
  one-letter names stay free for variables.

  \<^verbatim>\<open>WidgetLayoutConfig\<close> is a JavaScript object keyed by widget key.  It is modelled as
  an association list in insertion order: \<^verbatim>\<open>layouts[key]\<close> is \<open>map_of layouts key\<close>,
  \<^verbatim>\<open>obj[key] = v\<close> is \<open>AList.update key v obj\<close> (an existing key keeps its place),
  \<^verbatim>\<open>delete obj[key]\<close> is \<open>AList.delete key obj\<close> and \<^verbatim>\<open>Object.keys(obj).length\<close>
  is \<open>length obj\<close>.
\<close>

record WidgetLayout =
  x_pos :: int
  y_pos :: int
  width :: int
  height :: int

type_synonym 'k WidgetLayoutConfig = "('k \<times> WidgetLayout) list"

text \<open>
  The occupancy grid \<^verbatim>\<open>boolean[][]\<close> is sparse: a row is created on the first write and a
  read of a missing row or column is falsy.  It is modelled by the set of cells
  \<open>(row, column)\<close> that hold \<^verbatim>\<open>true\<close>.
\<close>

type_synonym grid = "(int \<times> int) set"

definition GRID_COLS :: int where
  "GRID_COLS = 12"

subsection \<open>compactLayoutsUtil\<close>

text \<open>
  \<^verbatim>\<open>canPlace\<close>: the bounds test, then the nested iteration over \<^verbatim>\<open>dy < h\<close> and
  \<^verbatim>\<open>dx < w\<close>, which return \<^verbatim>\<open>false\<close> at the first occupied cell.
\<close>

definition canPlace :: "grid \<Rightarrow> int \<Rightarrow> int \<Rightarrow> int \<Rightarrow> int \<Rightarrow> bool" where
  "canPlace g x y w h =
     (if x < 0 \<or> x + w > GRID_COLS then False
      else list_all (\<lambda>dy. list_all (\<lambda>dx. (y + dy, x + dx) \<notin> g) [0..w - 1]) [0..h - 1])"

text \<open>\<^verbatim>\<open>occupy\<close>: the nested iteration that sets every cell of the rectangle.\<close>

definition occupy :: "grid \<Rightarrow> int \<Rightarrow> int \<Rightarrow> int \<Rightarrow> int \<Rightarrow> grid" where
  "occupy g x y w h =
     fold (\<lambda>dy g'. fold (\<lambda>dx g''. insert (y + dy, x + dx) g'') [0..w - 1] g') [0..h - 1] g"

text \<open>
  The scan of one item: rows \<^verbatim>\<open>y = 0 .. 99\<close>, in each row columns
  \<^verbatim>\<open>x = 0 .. GRID_COLS - w\<close>, each loop guarded by \<^verbatim>\<open>!placed\<close>, so the scan stops at
  the first position that \<^verbatim>\<open>canPlace\<close> accepts.  The result is \<open>Some (x, y)\<close> for that
  position and \<open>None\<close> when \<^verbatim>\<open>placed\<close> is still false at the end.
\<close>

fun scanRows :: "grid \<Rightarrow> int \<Rightarrow> int \<Rightarrow> int list \<Rightarrow> (int \<times> int) option" where
  "scanRows g w h [] = None"
| "scanRows g w h (y # ys) =
     (case find (\<lambda>x. canPlace g x y w h) [0..GRID_COLS - w] of
        Some x \<Rightarrow> Some (x, y)
      | None \<Rightarrow> scanRows g w h ys)"

definition findSlot :: "grid \<Rightarrow> int \<Rightarrow> int \<Rightarrow> (int \<times> int) option" where
  "findSlot g w h = scanRows g w h [0..99]"

text \<open>
  The body of \<^verbatim>\<open>items.forEach\<close>, on the pair of the result object \<^verbatim>\<open>compacted\<close> and the
  grid.  When the scan found nothing the item goes to column 0 of row
  \<^verbatim>\<open>Object.keys(compacted).length * 2\<close>, unchecked.
\<close>

definition placeItem ::
  "'k \<times> WidgetLayout \<Rightarrow> 'k WidgetLayoutConfig \<times> grid \<Rightarrow> 'k WidgetLayoutConfig \<times> grid" where
  "placeItem item st =
     (let key = fst item; w = width (snd item); h = height (snd item);
          compacted = fst st; g = snd st
      in case findSlot g w h of
           Some (x, y) \<Rightarrow>
             (AList.update key \<lparr>x_pos = x, y_pos = y, width = w, height = h\<rparr> compacted,
              occupy g x y w h)
         | None \<Rightarrow>
             (let fallbackY = int (length compacted) * 2
              in (AList.update key \<lparr>x_pos = 0, y_pos = fallbackY, width = w, height = h\<rparr> compacted,
                  occupy g 0 fallbackY w h)))"

text \<open>
  The items: the visible keys that have a layout, each paired with its layout, sorted by
  the comparator \<^verbatim>\<open>a.y - b.y || a.x - b.x\<close>, that is by \<open>(y, x)\<close> lexicographically.
  \<^verbatim>\<open>Array.prototype.sort\<close> is stable, as \<open>sort_key\<close> is.
\<close>

definition sortKey :: "'k \<times> WidgetLayout \<Rightarrow> int \<times> int" where
  "sortKey item = (y_pos (snd item), x_pos (snd item))"

definition layoutItems :: "'k WidgetLayoutConfig \<Rightarrow> 'k list \<Rightarrow> ('k \<times> WidgetLayout) list" where
  "layoutItems layouts visibleKeys =
     sort_key sortKey
       (map (\<lambda>key. (key, the (map_of layouts key)))
         (filter (\<lambda>key. map_of layouts key \<noteq> None) visibleKeys))"

definition compactLayoutsUtil :: "'k WidgetLayoutConfig \<Rightarrow> 'k list \<Rightarrow> 'k WidgetLayoutConfig" where
  "compactLayoutsUtil layouts visibleKeys =
     fst (fold placeItem (layoutItems layouts visibleKeys) ([], {}))"


subsection \<open>First-fit packing, stated on rectangles\<close>

text \<open>
  The reference for greedy first-fit packing, written from the description and not from
  the grid code: it keeps the list of rectangles placed so far and tests a candidate
  position by rectangle overlap.  \<open>cellsOf\<close> is the set of grid cells \<open>(row, column)\<close> a
  layout covers; two layouts overlap when they share a cell, which for rectangles is the
  interval test of \<open>overlaps\<close>.
\<close>

definition cellsOf :: "WidgetLayout \<Rightarrow> (int \<times> int) set" where
  "cellsOf l = {(r, c). y_pos l \<le> r \<and> r < y_pos l + height l \<and> x_pos l \<le> c \<and> c < x_pos l + width l}"

definition overlaps :: "WidgetLayout \<Rightarrow> WidgetLayout \<Rightarrow> bool" where
  "overlaps a b =
     (max (x_pos a) (x_pos b) < min (x_pos a + width a) (x_pos b + width b) \<and>
      max (y_pos a) (y_pos b) < min (y_pos a + height a) (y_pos b + height b))"

definition inColumns :: "WidgetLayout \<Rightarrow> bool" where
  "inColumns l = (0 \<le> x_pos l \<and> x_pos l + width l \<le> GRID_COLS)"

definition fitsAt :: "WidgetLayout list \<Rightarrow> int \<Rightarrow> int \<Rightarrow> int \<Rightarrow> int \<Rightarrow> bool" where
  "fitsAt placed x y w h =
     (let l = \<lparr>x_pos = x, y_pos = y, width = w, height = h\<rparr>
      in inColumns l \<and> list_all (\<lambda>r. \<not> overlaps l r) placed)"

text \<open>Rows 0 to 99 in order, and in each row the columns 0 to 12 - w in order.\<close>

definition firstFitPosition :: "WidgetLayout list \<Rightarrow> int \<Rightarrow> int \<Rightarrow> (int \<times> int) option" where
  "firstFitPosition placed w h =
     find (\<lambda>p. fitsAt placed (snd p) (fst p) w h) (List.product [0..99] [0..GRID_COLS - w])"

fun firstFitAll ::
  "('k \<times> WidgetLayout) list \<Rightarrow> 'k WidgetLayoutConfig \<Rightarrow> WidgetLayout list \<Rightarrow> 'k WidgetLayoutConfig option" where
  "firstFitAll [] result placed = Some result"
| "firstFitAll (item # items) result placed =
     (case firstFitPosition placed (width (snd item)) (height (snd item)) of
        None \<Rightarrow> None
      | Some p \<Rightarrow>
          (let l = \<lparr>x_pos = snd p, y_pos = fst p, width = width (snd item), height = height (snd item)\<rparr>
           in firstFitAll items (AList.update (fst item) l result) (l # placed)))"

text \<open>
  The order of processing, also written from the description: the visible keys that have
  a layout, each with its input layout, in ascending order of the input position, first
  by \<open>y\<close> and among equal \<open>y\<close> by \<open>x\<close>.  \<open>positionLe\<close> compares two input positions;
  \<open>insertByPosition\<close> puts an item before the first item whose position is not smaller,
  so that widgets at the same position keep the order of the visible key list.
\<close>

definition positionLe :: "WidgetLayout \<Rightarrow> WidgetLayout \<Rightarrow> bool" where
  "positionLe a b = (y_pos a < y_pos b \<or> (y_pos a = y_pos b \<and> x_pos a \<le> x_pos b))"

fun insertByPosition ::
  "'k \<times> WidgetLayout \<Rightarrow> ('k \<times> WidgetLayout) list \<Rightarrow> ('k \<times> WidgetLayout) list" where
  "insertByPosition item [] = [item]"
| "insertByPosition item (other # rest) =
     (if positionLe (snd item) (snd other) then item # other # rest
      else other # insertByPosition item rest)"

definition visibleWithLayout :: "'k WidgetLayoutConfig \<Rightarrow> 'k list \<Rightarrow> ('k \<times> WidgetLayout) list" where
  "visibleWithLayout layouts visibleKeys =
     List.map_filter (\<lambda>key. map_option (Pair key) (map_of layouts key)) visibleKeys"

definition referenceItems :: "'k WidgetLayoutConfig \<Rightarrow> 'k list \<Rightarrow> ('k \<times> WidgetLayout) list" where
  "referenceItems layouts visibleKeys =
     foldr insertByPosition (visibleWithLayout layouts visibleKeys) []"

definition firstFitReference :: "'k WidgetLayoutConfig \<Rightarrow> 'k list \<Rightarrow> 'k WidgetLayoutConfig option" where
  "firstFitReference layouts visibleKeys = firstFitAll (referenceItems layouts visibleKeys) [] []"

text \<open>
  \<open>allScanned g items\<close> holds when the scan finds a position for every item of the run
  that starts on grid \<open>g\<close>, so that the unchecked branch of \<open>placeItem\<close> is never taken.
\<close>

fun allScanned :: "grid \<Rightarrow> ('k \<times> WidgetLayout) list \<Rightarrow> bool" where
  "allScanned g [] = True"
| "allScanned g (item # items) =
     (case findSlot g (width (snd item)) (height (snd item)) of
        None \<Rightarrow> False
      | Some p \<Rightarrow> allScanned (occupy g (fst p) (snd p) (width (snd item)) (height (snd item))) items)"

definition placedByScan :: "'k WidgetLayoutConfig \<Rightarrow> 'k list \<Rightarrow> bool" where
  "placedByScan layouts visibleKeys = allScanned {} (layoutItems layouts visibleKeys)"

text \<open>
  The positions the first pass gave, read in the order in which it processed the
  widgets.
\<close>

definition passPositions :: "'k WidgetLayoutConfig \<Rightarrow> 'k list \<Rightarrow> (int \<times> int) list" where
  "passPositions layouts visibleKeys =
     map (\<lambda>item. sortKey (fst item, the (map_of (compactLayoutsUtil layouts visibleKeys) (fst item))))
       (layoutItems layouts visibleKeys)"

text \<open>
  The position \<open>placeItem\<close> chooses and the layout it stores, named for the proofs, and
  the invariant of a run in which every item is placed by the scan: every stored layout
  lies in the twelve columns and on occupied cells, and layouts of different keys share
  no cell.
\<close>

definition chosenPosition :: "'k WidgetLayoutConfig \<Rightarrow> grid \<Rightarrow> int \<Rightarrow> int \<Rightarrow> int \<times> int" where
  "chosenPosition compacted g w h =
     (case findSlot g w h of Some p \<Rightarrow> p | None \<Rightarrow> (0, int (length compacted) * 2))"

definition placedLayout :: "'k \<times> WidgetLayout \<Rightarrow> 'k WidgetLayoutConfig \<times> grid \<Rightarrow> WidgetLayout" where
  "placedLayout item st =
     (let p = chosenPosition (fst st) (snd st) (width (snd item)) (height (snd item))
      in \<lparr>x_pos = fst p, y_pos = snd p, width = width (snd item), height = height (snd item)\<rparr>)"


text \<open>
  For the second pass: \<open>itemShape\<close> is what \<open>placeItem\<close> reads of an item, its key and
  its size, and \<open>secondItems\<close> are the items of the first pass carrying the layouts the
  first pass gave them.
\<close>

definition itemShape :: "'k \<times> WidgetLayout \<Rightarrow> 'k \<times> int \<times> int" where
  "itemShape item = (fst item, width (snd item), height (snd item))"

definition secondItems :: "'k WidgetLayoutConfig \<Rightarrow> 'k list \<Rightarrow> ('k \<times> WidgetLayout) list" where
  "secondItems layouts visibleKeys =
     map (\<lambda>item. (fst item, the (map_of (compactLayoutsUtil layouts visibleKeys) (fst item))))
       (layoutItems layouts visibleKeys)"

text \<open>The cells of the rows above row \<open>n\<close> on the screen, rows \<open>r < n\<close>.\<close>

definition rowsBelow :: "int \<Rightarrow> grid" where
  "rowsBelow n = {(r, c). r < n}"

subsection \<open>Example configurations\<close>

definition exampleThree :: "string WidgetLayoutConfig" where
  "exampleThree =
     [(''a'', \<lparr>x_pos = 0, y_pos = 0, width = 6, height = 1\<rparr>),
      (''b'', \<lparr>x_pos = 0, y_pos = 1, width = 7, height = 1\<rparr>),
      (''c'', \<lparr>x_pos = 0, y_pos = 2, width = 2, height = 2\<rparr>)]"

definition exampleShuffled :: "string WidgetLayoutConfig" where
  "exampleShuffled =
     [(''c'', \<lparr>x_pos = 0, y_pos = 2, width = 2, height = 2\<rparr>),
      (''b'', \<lparr>x_pos = 5, y_pos = 1, width = 7, height = 1\<rparr>),
      (''d'', \<lparr>x_pos = 6, y_pos = 0, width = 1, height = 1\<rparr>),
      (''a'', \<lparr>x_pos = 0, y_pos = 0, width = 6, height = 1\<rparr>)]"


definition examplePair :: "string WidgetLayoutConfig" where
  "examplePair =
     [(''a'', \<lparr>x_pos = 0, y_pos = 0, width = 6, height = 1\<rparr>),
      (''b'', \<lparr>x_pos = 0, y_pos = 3, width = 6, height = 1\<rparr>)]"

section \<open>Dashboard state and customize mode\<close>

text \<open>
  The component state of \<^verbatim>\<open>UserDashboard\<close> that the customize-mode handlers read and
  write.  \<^verbatim>\<open>pendingWidgetChanges\<close> is a JavaScript \<^verbatim>\<open>Set\<close>, which iterates in insertion
  order: it is a list without repetition, \<^verbatim>\<open>add\<close> appends and \<^verbatim>\<open>delete\<close> removes.
  \<^verbatim>\<open>originalState\<close> is the snapshot \<^verbatim>\<open>{ visible, order, layouts }\<close> or \<^verbatim>\<open>null\<close>; its
  fields carry the prefix \<open>orig_\<close>.
\<close>

record 'k Snapshot =
  orig_visible :: "'k list"
  orig_order :: "'k list"
  orig_layouts :: "'k WidgetLayoutConfig"

record 'k Dashboard =
  visibleWidgets :: "'k list"
  widgetOrder :: "'k list"
  widgetLayouts :: "'k WidgetLayoutConfig"
  pendingWidgetChanges :: "'k list"
  originalState :: "'k Snapshot option"
  isResizeMode :: bool

text \<open>
  The updater shared by \<^verbatim>\<open>handleWidgetRemove\<close> and \<^verbatim>\<open>togglePendingWidget\<close>:
  \<^verbatim>\<open>next = new Set(prev); if (next.has(key)) next.delete(key); else next.add(key)\<close>.
\<close>

definition togglePending :: "'k \<Rightarrow> 'k list \<Rightarrow> 'k list" where
  "togglePending key prev = (if key \<in> set prev then removeAll key prev else prev @ [key])"

definition handleLayoutChange :: "'k WidgetLayoutConfig \<Rightarrow> 'k Dashboard \<Rightarrow> 'k Dashboard" where
  "handleLayoutChange newLayouts s =
     s\<lparr>widgetLayouts := compactLayoutsUtil newLayouts (visibleWidgets s)\<rparr>"

text \<open>\<^verbatim>\<open>handleWidgetRemove\<close> also shows a toast, which is not part of the state.\<close>

definition handleWidgetRemove :: "'k \<Rightarrow> 'k Dashboard \<Rightarrow> 'k Dashboard" where
  "handleWidgetRemove key s =
     s\<lparr>pendingWidgetChanges := togglePending key (pendingWidgetChanges s)\<rparr>"

definition togglePendingWidget :: "'k \<Rightarrow> 'k Dashboard \<Rightarrow> 'k Dashboard" where
  "togglePendingWidget key s =
     s\<lparr>pendingWidgetChanges := togglePending key (pendingWidgetChanges s)\<rparr>"

definition handleEnterCustomizeMode :: "'k Dashboard \<Rightarrow> 'k Dashboard" where
  "handleEnterCustomizeMode s =
     s\<lparr>originalState :=
          Some \<lparr>orig_visible = visibleWidgets s, orig_order = widgetOrder s,
                orig_layouts = widgetLayouts s\<rparr>,
        isResizeMode := True\<rparr>"

definition handleCancelCustomize :: "'k Dashboard \<Rightarrow> 'k Dashboard" where
  "handleCancelCustomize s =
     (let restored =
            (case originalState s of
               Some orig \<Rightarrow>
                 s\<lparr>visibleWidgets := orig_visible orig, widgetOrder := orig_order orig,
                   widgetLayouts := orig_layouts orig\<rparr>
             | None \<Rightarrow> s)
      in restored\<lparr>pendingWidgetChanges := [], originalState := None, isResizeMode := False\<rparr>)"

text \<open>
  What can happen between entering customize mode and leaving it: a layout change reported
  by the grid, a toggle from the widget popover, a toggle from a widget's remove button.
\<close>

datatype 'k CustomizeEvent =
    LayoutChange "'k WidgetLayoutConfig"
  | TogglePending 'k
  | WidgetRemove 'k

fun applyEvent :: "'k CustomizeEvent \<Rightarrow> 'k Dashboard \<Rightarrow> 'k Dashboard" where
  "applyEvent (LayoutChange newLayouts) s = handleLayoutChange newLayouts s"
| "applyEvent (TogglePending key) s = togglePendingWidget key s"
| "applyEvent (WidgetRemove key) s = handleWidgetRemove key s"

subsection \<open>findNextGridPosition and handleSaveLayout\<close>

text \<open>
  \<^verbatim>\<open>findNextGridPosition\<close> first marks the cells of every existing layout, rows
  \<^verbatim>\<open>y .. y + h - 1\<close> and columns \<^verbatim>\<open>x .. min(x + w, COLS) - 1\<close>, then scans rows 0 to 99
  and columns \<^verbatim>\<open>0 .. COLS - widgetWidth\<close> and returns the first position whose
  rectangle is free; when there is none it returns column 0 of row
  \<^verbatim>\<open>Object.keys(existingLayouts).length * 2\<close>.
\<close>

definition COLS :: int where
  "COLS = 12"

definition markLayout :: "WidgetLayout \<Rightarrow> grid \<Rightarrow> grid" where
  "markLayout layout g =
     fold (\<lambda>row g'. fold (\<lambda>col g''. insert (row, col) g'')
                        [x_pos layout..min (x_pos layout + width layout) COLS - 1] g')
          [y_pos layout..y_pos layout + height layout - 1] g"

definition fitsHere :: "grid \<Rightarrow> int \<Rightarrow> int \<Rightarrow> int \<Rightarrow> int \<Rightarrow> bool" where
  "fitsHere g x y widgetWidth widgetHeight =
     list_all (\<lambda>dy. list_all (\<lambda>dx. (y + dy, x + dx) \<notin> g) [0..widgetWidth - 1])
       [0..widgetHeight - 1]"

fun searchRows :: "grid \<Rightarrow> int \<Rightarrow> int \<Rightarrow> int list \<Rightarrow> (int \<times> int) option" where
  "searchRows g widgetWidth widgetHeight [] = None"
| "searchRows g widgetWidth widgetHeight (y # ys) =
     (case find (\<lambda>x. fitsHere g x y widgetWidth widgetHeight) [0..COLS - widgetWidth] of
        Some x \<Rightarrow> Some (x, y)
      | None \<Rightarrow> searchRows g widgetWidth widgetHeight ys)"

definition findNextGridPosition :: "'k WidgetLayoutConfig \<Rightarrow> int \<Rightarrow> int \<Rightarrow> int \<times> int" where
  "findNextGridPosition existingLayouts widgetWidth widgetHeight =
     (case searchRows (fold markLayout (map snd existingLayouts) {}) widgetWidth widgetHeight [0..99] of
        Some p \<Rightarrow> p
      | None \<Rightarrow> (0, int (length existingLayouts) * 2))"

text \<open>
  The body of \<^verbatim>\<open>pendingWidgetChanges.forEach\<close> in \<^verbatim>\<open>handleSaveLayout\<close>, on the triple
  \<^verbatim>\<open>(finalVisible, finalOrder, finalLayouts)\<close>.  \<^verbatim>\<open>isCurrentlyVisible\<close> is read from the
  state's \<^verbatim>\<open>visibleWidgets\<close>, not from \<^verbatim>\<open>finalVisible\<close>.
\<close>

definition applyPending ::
  "'k list \<Rightarrow> 'k \<Rightarrow> 'k list \<times> 'k list \<times> 'k WidgetLayoutConfig
     \<Rightarrow> 'k list \<times> 'k list \<times> 'k WidgetLayoutConfig" where
  "applyPending visibleNow key fin =
     (let finalVisible = fst fin; finalOrder = fst (snd fin); finalLayouts = snd (snd fin)
      in if key \<in> set visibleNow
         then (filter (\<lambda>w. w \<noteq> key) finalVisible,
               filter (\<lambda>w. w \<noteq> key) finalOrder,
               AList.delete key finalLayouts)
         else (finalVisible @ [key],
               (if key \<in> set finalOrder then finalOrder else finalOrder @ [key]),
               (let position = findNextGridPosition finalLayouts 3 2
                in AList.update key
                     \<lparr>x_pos = fst position, y_pos = snd position, width = 3, height = 2\<rparr>
                     finalLayouts)))"






subsection \<open>Loading the stored preferences\<close>

text \<open>
  \<^verbatim>\<open>DEFAULT_WIDGETS\<close> is imported from \<^verbatim>\<open>DashboardCustomizeModal\<close>; the effect reads the
  \<^verbatim>\<open>key\<close> and the \<^verbatim>\<open>visible\<close> flag of its entries, so it is a parameter, a list of
  pairs \<open>(key, visible)\<close>.  \<^verbatim>\<open>dashboardPrefs\<close> is the row of stored preferences or
  \<^verbatim>\<open>null\<close>; each of its two list columns is an array or \<^verbatim>\<open>null\<close>.
\<close>

record 'k DashboardPrefs =
  visible_widgets :: "'k list option"
  card_order :: "'k list option"

definition defaultWidgetKeys :: "('k \<times> bool) list \<Rightarrow> 'k list" where
  "defaultWidgetKeys DEFAULT_WIDGETS = map fst DEFAULT_WIDGETS"

definition defaultVisibleWidgets :: "('k \<times> bool) list \<Rightarrow> 'k list" where
  "defaultVisibleWidgets DEFAULT_WIDGETS =
     filter (\<lambda>k. case find (\<lambda>w. fst w = k) DEFAULT_WIDGETS of Some w \<Rightarrow> snd w | None \<Rightarrow> False)
       (defaultWidgetKeys DEFAULT_WIDGETS)"

text \<open>
  \<^verbatim>\<open>sanitizeKeys\<close>: the loop over \<^verbatim>\<open>keys\<close> with the set \<^verbatim>\<open>seen\<close> and the array
  \<^verbatim>\<open>uniq\<close>; \<^verbatim>\<open>allowed\<close> is the set of the default widget keys.
\<close>

definition sanitizeStep :: "'k list \<Rightarrow> 'k \<Rightarrow> 'k set \<times> 'k list \<Rightarrow> 'k set \<times> 'k list" where
  "sanitizeStep allowedKeys k st =
     (if k \<notin> set allowedKeys then st
      else if k \<in> fst st then st
      else (insert k (fst st), snd st @ [k]))"

definition sanitizeKeys :: "'k list \<Rightarrow> 'k list \<Rightarrow> 'k list" where
  "sanitizeKeys allowedKeys keys = snd (fold (sanitizeStep allowedKeys) keys ({}, []))"

definition nextVisibleRaw :: "('k \<times> bool) list \<Rightarrow> 'k DashboardPrefs option \<Rightarrow> 'k list" where
  "nextVisibleRaw DEFAULT_WIDGETS dashboardPrefs =
     (case Option.bind dashboardPrefs visible_widgets of
        Some stored \<Rightarrow> stored
      | None \<Rightarrow> defaultVisibleWidgets DEFAULT_WIDGETS)"

definition nextOrderRaw :: "('k \<times> bool) list \<Rightarrow> 'k DashboardPrefs option \<Rightarrow> 'k list" where
  "nextOrderRaw DEFAULT_WIDGETS dashboardPrefs =
     (case Option.bind dashboardPrefs card_order of
        Some stored \<Rightarrow> stored
      | None \<Rightarrow> defaultWidgetKeys DEFAULT_WIDGETS)"

text \<open>
  The load effect.  \<open>hasUser\<close> is \<^verbatim>\<open>user?.id\<close> being set; \<open>loadedLayouts\<close> is the value of
  \<^verbatim>\<open>parseWidgetLayouts()\<close> read as a \<^verbatim>\<open>WidgetLayoutConfig\<close>.
\<close>

definition loadEffect ::
  "('k \<times> bool) list \<Rightarrow> bool \<Rightarrow> 'k DashboardPrefs option \<Rightarrow> 'k WidgetLayoutConfig
     \<Rightarrow> 'k Dashboard \<Rightarrow> 'k Dashboard" where
  "loadEffect DEFAULT_WIDGETS hasUser dashboardPrefs loadedLayouts s =
     (let s0 = s\<lparr>isResizeMode := False\<rparr>
      in if \<not> hasUser then s0
         else
           (let nextVisible =
                  sanitizeKeys (defaultWidgetKeys DEFAULT_WIDGETS)
                    (nextVisibleRaw DEFAULT_WIDGETS dashboardPrefs);
                nextOrderBase =
                  sanitizeKeys (defaultWidgetKeys DEFAULT_WIDGETS)
                    (nextOrderRaw DEFAULT_WIDGETS dashboardPrefs);
                missingVisible = filter (\<lambda>k. k \<notin> set nextOrderBase) nextVisible;
                nextOrder = nextOrderBase @ missingVisible;
                compactedLayouts = compactLayoutsUtil loadedLayouts nextVisible
            in s0\<lparr>visibleWidgets := nextVisible, widgetOrder := nextOrder,
                  widgetLayouts := compactedLayouts\<rparr>))"

text \<open>
  The keys of a list that are allowed, each kept at its first occurrence only: position
  \<open>i\<close> is kept when its key is allowed and does not occur before \<open>i\<close>.
\<close>

definition firstOccurrences :: "'k list \<Rightarrow> 'k list \<Rightarrow> 'k list" where
  "firstOccurrences allowedKeys keys =
     map (\<lambda>i. keys ! i)
       (filter (\<lambda>i. keys ! i \<in> set allowedKeys \<and> keys ! i \<notin> set (take i keys)) [0..<length keys])"

section \<open>The stored layout blob and the lead-status filter\<close>

text \<open>
  A value of the \<^verbatim>\<open>layout_view\<close> column, or the result of \<^verbatim>\<open>JSON.parse\<close>: a JSON value.
  \<open>truthy\<close> is JavaScript truthiness and \<open>typeof\<close> the \<^verbatim>\<open>typeof\<close> operator on these
  values; an array and \<^verbatim>\<open>null\<close> both have type \<^verbatim>\<open>"object"\<close>.
\<close>

datatype json =
    JNull
  | JBool bool
  | JNum int
  | JStr string
  | JArr "json list"
  | JObj "(string \<times> json) list"

datatype jsError = SyntaxError

fun truthy :: "json \<Rightarrow> bool" where
  "truthy JNull = False"
| "truthy (JBool b) = b"
| "truthy (JNum n) = (n \<noteq> 0)"
| "truthy (JStr s) = (s \<noteq> [])"
| "truthy (JArr vs) = True"
| "truthy (JObj kvs) = True"

fun typeof :: "json \<Rightarrow> string" where
  "typeof JNull = ''object''"
| "typeof (JBool b) = ''boolean''"
| "typeof (JNum n) = ''number''"
| "typeof (JStr s) = ''string''"
| "typeof (JArr vs) = ''object''"
| "typeof (JObj kvs) = ''object''"

text \<open>
  \<^verbatim>\<open>parseWidgetLayouts\<close>.  \<^verbatim>\<open>JSON.parse\<close> is a built-in of the language, taken as a
  parameter that returns the parsed value or throws \<^verbatim>\<open>SyntaxError\<close>.  The argument
  \<open>layout_view\<close> is \<^verbatim>\<open>dashboardPrefs?.layout_view\<close>, \<open>None\<close> when it is \<^verbatim>\<open>undefined\<close>.
  The result is a sum, \<open>Inl\<close> for an exception that leaves the function.

  \<open>tryParse\<close> is the \<^verbatim>\<open>try\<close> block: \<open>Inr (Some v)\<close> when it returns \<open>v\<close>, \<open>Inr None\<close>
  when it falls through, \<open>Inl e\<close> when it throws \<open>e\<close>.  \<open>catchAll\<close> is the \<^verbatim>\<open>catch\<close>
  clause with the empty body.
\<close>

definition tryParse :: "(string \<Rightarrow> jsError + json) \<Rightarrow> string \<Rightarrow> jsError + json option" where
  "tryParse JSON_parse s =
     (case JSON_parse s of
        Inl e \<Rightarrow> Inl e
      | Inr parsed \<Rightarrow>
          if typeof parsed = ''object'' \<and> parsed \<noteq> JNull then Inr (Some parsed) else Inr None)"

definition catchAll :: "jsError + json option \<Rightarrow> jsError + json option" where
  "catchAll r = (case r of Inl e \<Rightarrow> Inr None | Inr v \<Rightarrow> Inr v)"

definition parseWidgetLayouts :: "(string \<Rightarrow> jsError + json) \<Rightarrow> json option \<Rightarrow> jsError + json" where
  "parseWidgetLayouts JSON_parse layout_view =
     (case layout_view of
        None \<Rightarrow> Inr (JObj [])
      | Some v \<Rightarrow>
          if \<not> truthy v then Inr (JObj [])
          else if typeof v = ''object'' then Inr v
          else
            (case v of
               JStr s \<Rightarrow>
                 (case catchAll (tryParse JSON_parse s) of
                    Inl e \<Rightarrow> Inl e
                  | Inr (Some parsed) \<Rightarrow> Inr parsed
                  | Inr None \<Rightarrow> Inr (JObj []))
             | _ \<Rightarrow> Inr (JObj [])))"

text \<open>
  A widget layout configuration as the JSON value that \<^verbatim>\<open>JSON.stringify\<close> receives in
  \<^verbatim>\<open>savePreferencesMutation\<close>.
\<close>

definition layoutJson :: "WidgetLayout \<Rightarrow> json" where
  "layoutJson l =
     JObj [(''x'', JNum (x_pos l)), (''y'', JNum (y_pos l)),
           (''w'', JNum (width l)), (''h'', JNum (height l))]"

definition configJson :: "string WidgetLayoutConfig \<Rightarrow> json" where
  "configJson config = JObj (map (\<lambda>entry. (fst entry, layoutJson (snd entry))) config)"

subsection \<open>LeadStatusFilter\<close>

text \<open>
  What \<^verbatim>\<open>LeadStatusFilter\<close> renders, as far as it depends on \<^verbatim>\<open>value\<close>: the value handed
  to the select (\<^verbatim>\<open>value || "all"\<close>), whether the trigger carries the highlight classes,
  and the text of the badge when the badge is rendered.
\<close>

record LeadStatusFilterView =
  selectValue :: string
  triggerHighlighted :: bool
  badge :: "string option"

definition LeadStatusFilter :: "string \<Rightarrow> LeadStatusFilterView" where
  "LeadStatusFilter v =
     (let isActive = (v \<noteq> ''all'')
      in \<lparr>selectValue = (if v = [] then ''all'' else v),
          triggerHighlighted = isActive,
          badge = (if isActive then Some ''1'' else None)\<rparr>)"

section \<open>JSON text of a stored configuration\<close>

text \<open>
  \<^verbatim>\<open>savePreferencesMutation\<close> writes \<^verbatim>\<open>JSON.stringify(layouts)\<close> and \<open>parseWidgetLayouts\<close>
  reads a stored string with \<^verbatim>\<open>JSON.parse\<close>.  Both are built-ins of the language.  This
  section gives their standard behaviour on the values a layout configuration consists of:
  objects, integers, and keys and strings that need no escape.  Characters are told apart
  by their code: digits, the letters and the underscore that may start a key, and the
  printable ASCII characters other than the double quote and the backslash, which
  \<^verbatim>\<open>JSON.stringify\<close> copies into a string unchanged.  A key starts with a letter or an
  underscore, so it is not an array index, and the members of an object keep the order in
  which they were written.
\<close>

definition isDigit :: "char \<Rightarrow> bool" where
  "isDigit c = (48 \<le> (of_char c :: nat) \<and> (of_char c :: nat) \<le> 57)"

definition isLetter :: "char \<Rightarrow> bool" where
  "isLetter c =
     ((65 \<le> (of_char c :: nat) \<and> (of_char c :: nat) \<le> 90) \<or>
      (97 \<le> (of_char c :: nat) \<and> (of_char c :: nat) \<le> 122) \<or> (of_char c :: nat) = 95)"

definition plainChar :: "char \<Rightarrow> bool" where
  "plainChar c =
     (32 \<le> (of_char c :: nat) \<and> (of_char c :: nat) \<le> 126 \<and>
      (of_char c :: nat) \<noteq> 34 \<and> (of_char c :: nat) \<noteq> 92)"

definition keyLike :: "string \<Rightarrow> bool" where
  "keyLike k = (case k of [] \<Rightarrow> False | c # cs \<Rightarrow> isLetter c \<and> list_all plainChar cs)"

text \<open>
  \<^verbatim>\<open>JSON.stringify\<close> on an integer gives its decimal digits, with a minus sign when it is
  negative.  Up to \<^verbatim>\<open>Number.MAX_SAFE_INTEGER\<close> every integer is a number of the language
  and is printed in full.
\<close>

definition MAX_SAFE_INTEGER :: int where
  "MAX_SAFE_INTEGER = 9007199254740991"

definition digitChar :: "nat \<Rightarrow> char" where
  "digitChar d = char_of (48 + d)"

definition digitValue :: "char \<Rightarrow> int" where
  "digitValue c = int (of_char c) - 48"

fun showNat :: "nat \<Rightarrow> string" where
  "showNat n = (if n < 10 then [digitChar n] else showNat (n div 10) @ [digitChar (n mod 10)])"

definition showInt :: "int \<Rightarrow> string" where
  "showInt i = (if i < 0 then CHR 0x2D # showNat (nat (- i)) else showNat (nat i))"

text \<open>
  \<open>stringifyText\<close> is \<^verbatim>\<open>JSON.stringify\<close> with one argument: no white space, members
  separated by commas, a key and its value by a colon.  \<open>membersText\<close> is the text between
  the braces of an object.
\<close>

fun joinComma :: "string list \<Rightarrow> string" where
  "joinComma [] = []"
| "joinComma [x] = x"
| "joinComma (x # y # rest) = x @ CHR 0x2C # joinComma (y # rest)"

definition quoteText :: "string \<Rightarrow> string" where
  "quoteText s = CHR 0x22 # s @ [CHR 0x22]"

definition memberText :: "string \<times> string \<Rightarrow> string" where
  "memberText kv = quoteText (fst kv) @ CHR 0x3A # snd kv"

primrec stringifyText :: "json \<Rightarrow> string" where
  "stringifyText JNull = ''null''"
| "stringifyText (JBool b) = (if b then ''true'' else ''false'')"
| "stringifyText (JNum n) = showInt n"
| "stringifyText (JStr s) = quoteText s"
| "stringifyText (JArr vs) = CHR 0x5B # joinComma (map stringifyText vs) @ [CHR 0x5D]"
| "stringifyText (JObj kvs) =
     CHR 0x7B # joinComma (map memberText (map (map_prod id stringifyText) kvs)) @ [CHR 0x7D]"

definition membersText :: "(string \<times> json) list \<Rightarrow> string" where
  "membersText kvs = joinComma (map memberText (map (map_prod id stringifyText) kvs))"

text \<open>
  \<^verbatim>\<open>JSON.parse\<close> on text without white space.  \<open>parseString\<close> reads the characters of a
  string after its opening quote, up to the closing quote.  \<open>parseNumber\<close> reads an
  integer: an optional minus sign and digits, with no leading zero, no negative zero and
  no value above \<^verbatim>\<open>Number.MAX_SAFE_INTEGER\<close>.  Each returns what it read and the rest of
  the text, or \<open>None\<close> on text outside this fragment.
\<close>

fun parseString :: "string \<Rightarrow> (string \<times> string) option" where
  "parseString [] = None"
| "parseString (c # cs) =
     (if c = CHR 0x22 then Some ([], cs)
      else if plainChar c
           then (case parseString cs of None \<Rightarrow> None | Some r \<Rightarrow> Some (c # fst r, snd r))
           else None)"

definition digitsValue :: "string \<Rightarrow> int" where
  "digitsValue ds = foldl (\<lambda>a c. 10 * a + digitValue c) 0 ds"

definition parseNumber :: "string \<Rightarrow> (int \<times> string) option" where
  "parseNumber s =
     (let negative = (s \<noteq> [] \<and> hd s = CHR 0x2D);
          body = (if negative then tl s else s);
          ds = takeWhile isDigit body;
          n = digitsValue ds
      in if ds = [] \<or> (1 < length ds \<and> hd ds = CHR 0x30) \<or> MAX_SAFE_INTEGER < n
            \<or> (negative \<and> n = 0)
         then None
         else Some (if negative then - n else n, dropWhile isDigit body))"

text \<open>
  \<open>parseValue\<close> reads an object, a string or an integer, \<open>parseMembers\<close> the members of
  an object after the opening brace.  A key that occurs again replaces the earlier value
  and keeps the earlier place, as in \<^verbatim>\<open>JSON.parse\<close>.  The first argument bounds the
  nesting depth plus the number of members read; \<open>parseText\<close> starts with more than the
  length of the text and accepts only when all of the text was read.  \<open>parseFragment\<close>
  throws \<^verbatim>\<open>SyntaxError\<close> on every text that \<open>parseText\<close> does not accept.
\<close>

fun parseValue :: "nat \<Rightarrow> string \<Rightarrow> (json \<times> string) option"
  and parseMembers :: "nat \<Rightarrow> (string \<times> json) list \<Rightarrow> string \<Rightarrow> ((string \<times> json) list \<times> string) option"
where
  "parseValue 0 s = None"
| "parseValue (Suc fuel) [] = None"
| "parseValue (Suc fuel) (c # cs) =
     (if c = CHR 0x7B
      then (if cs \<noteq> [] \<and> hd cs = CHR 0x7D then Some (JObj [], tl cs)
            else (case parseMembers fuel [] cs of
                    None \<Rightarrow> None
                  | Some r \<Rightarrow> Some (JObj (fst r), snd r)))
      else if c = CHR 0x22
      then (case parseString cs of None \<Rightarrow> None | Some r \<Rightarrow> Some (JStr (fst r), snd r))
      else (case parseNumber (c # cs) of None \<Rightarrow> None | Some r \<Rightarrow> Some (JNum (fst r), snd r)))"
| "parseMembers 0 acc s = None"
| "parseMembers (Suc fuel) acc [] = None"
| "parseMembers (Suc fuel) acc (c # cs) =
     (if c \<noteq> CHR 0x22 then None
      else (case parseString cs of
              None \<Rightarrow> None
            | Some kr \<Rightarrow>
                if \<not> keyLike (fst kr) \<or> snd kr = [] \<or> hd (snd kr) \<noteq> CHR 0x3A then None
                else (case parseValue fuel (tl (snd kr)) of
                        None \<Rightarrow> None
                      | Some vr \<Rightarrow>
                          if snd vr = [] then None
                          else if hd (snd vr) = CHR 0x2C
                          then parseMembers fuel (AList.update (fst kr) (fst vr) acc) (tl (snd vr))
                          else if hd (snd vr) = CHR 0x7D
                          then Some (AList.update (fst kr) (fst vr) acc, tl (snd vr))
                          else None)))"

definition parseText :: "string \<Rightarrow> json option" where
  "parseText t =
     (case parseValue (Suc (length t)) t of
        Some r \<Rightarrow> if snd r = [] then Some (fst r) else None
      | None \<Rightarrow> None)"

definition parseFragment :: "string \<Rightarrow> jsError + json" where
  "parseFragment t = (case parseText t of Some v \<Rightarrow> Inr v | None \<Rightarrow> Inl SyntaxError)"

text \<open>
  The configurations covered: every key occurs once and is a key as above, and the four
  numbers of every layout are integers up to \<^verbatim>\<open>Number.MAX_SAFE_INTEGER\<close> in absolute
  value.
\<close>

definition safeLayout :: "WidgetLayout \<Rightarrow> bool" where
  "safeLayout l =
     (\<bar>x_pos l\<bar> \<le> MAX_SAFE_INTEGER \<and> \<bar>y_pos l\<bar> \<le> MAX_SAFE_INTEGER \<and>
      \<bar>width l\<bar> \<le> MAX_SAFE_INTEGER \<and> \<bar>height l\<bar> \<le> MAX_SAFE_INTEGER)"

definition storableConfig :: "string WidgetLayoutConfig \<Rightarrow> bool" where
  "storableConfig config =
     (distinct (map fst config) \<and> list_all (\<lambda>entry. keyLike (fst entry) \<and> safeLayout (snd entry)) config)"

section \<open>Example states and stored values\<close>

definition exampleDashboard :: "string Dashboard" where
  "exampleDashboard =
     \<lparr>visibleWidgets = [''a'', ''b''], widgetOrder = [''a'', ''b'', ''c''],
      widgetLayouts = examplePair, pendingWidgetChanges = [],
      originalState = None, isResizeMode = False\<rparr>"


definition exampleDefaults :: "(string \<times> bool) list" where
  "exampleDefaults = [(''a'', True), (''b'', True), (''c'', False)]"

definition examplePrefs :: "string DashboardPrefs" where
  "examplePrefs = \<lparr>visible_widgets = Some [''b'', ''x'', ''b'', ''c''], card_order = Some [''a'', ''a'', ''b'']\<rparr>"

definition exampleBlob :: string where
  \<open>exampleBlob = ''{"a":{"x":0,"y":0,"w":3,"h":2}}''\<close>

definition exampleSaved :: "string WidgetLayoutConfig" where
  "exampleSaved = [(''a'', \<lparr>x_pos = 0, y_pos = 0, width = 3, height = 2\<rparr>)]"

definition exampleParse :: "string \<Rightarrow> jsError + json" where
  "exampleParse s = (if s = exampleBlob then Inr (configJson exampleSaved) else Inl SyntaxError)"

definition exampleTwo :: "string WidgetLayoutConfig" where
  "exampleTwo =
     [(''leads'', \<lparr>x_pos = 0, y_pos = 0, width = 6, height = 2\<rparr>),
      (''tasks'', \<lparr>x_pos = 6, y_pos = 10, width = 3, height = 2\<rparr>)]"

definition exampleTwoBlob :: string where
  \<open>exampleTwoBlob = ''{"leads":{"x":0,"y":0,"w":6,"h":2},"tasks":{"x":6,"y":10,"w":3,"h":2}}''\<close>

section \<open>Properties of the layout compaction\<close>

subsection \<open>The grid and the rectangles\<close>

lemma fold_insert_cells: "fold (\<lambda>d s. insert (f d) s) ds g = g \<union> f ` set ds"
  by (induction ds arbitrary: g) auto

lemma fold_rows_cells:
  "fold (\<lambda>dy s. s \<union> F dy) ds g = g \<union> (\<Union>dy\<in>set ds. F dy)"
  by (induction ds arbitrary: g) auto

lemma occupy_cells:
  "occupy g x y w h = g \<union> cellsOf \<lparr>x_pos = x, y_pos = y, width = w, height = h\<rparr>"
proof -
  have "occupy g x y w h = g \<union> (\<Union>dy\<in>{0..h - 1}. (\<lambda>dx. (y + dy, x + dx)) ` {0..w - 1})"
    by (simp add: occupy_def fold_insert_cells fold_rows_cells)
  also have "(\<Union>dy\<in>{0..h - 1}. (\<lambda>dx. (y + dy, x + dx)) ` {0..w - 1})
      = cellsOf \<lparr>x_pos = x, y_pos = y, width = w, height = h\<rparr>"
  proof (rule set_eqI)
    fix p :: "int \<times> int"
    obtain r c where p: "p = (r, c)" by (cases p)
    show "p \<in> (\<Union>dy\<in>{0..h - 1}. (\<lambda>dx. (y + dy, x + dx)) ` {0..w - 1})
       \<longleftrightarrow> p \<in> cellsOf \<lparr>x_pos = x, y_pos = y, width = w, height = h\<rparr>"
    proof
      assume "p \<in> (\<Union>dy\<in>{0..h - 1}. (\<lambda>dx. (y + dy, x + dx)) ` {0..w - 1})"
      then show "p \<in> cellsOf \<lparr>x_pos = x, y_pos = y, width = w, height = h\<rparr>"
        by (auto simp: cellsOf_def)
    next
      assume "p \<in> cellsOf \<lparr>x_pos = x, y_pos = y, width = w, height = h\<rparr>"
      then have b: "y \<le> r" "r < y + h" "x \<le> c" "c < x + w"
        by (simp_all add: cellsOf_def p)
      then have "r - y \<in> {0..h - 1}" "c - x \<in> {0..w - 1}" "p = (y + (r - y), x + (c - x))"
        by (simp_all add: p)
      then show "p \<in> (\<Union>dy\<in>{0..h - 1}. (\<lambda>dx. (y + dy, x + dx)) ` {0..w - 1})"
        by blast
    qed
  qed
  finally show ?thesis .
qed

lemma canPlace_cells:
  "canPlace g x y w h \<longleftrightarrow>
     inColumns \<lparr>x_pos = x, y_pos = y, width = w, height = h\<rparr> \<and>
     cellsOf \<lparr>x_pos = x, y_pos = y, width = w, height = h\<rparr> \<inter> g = {}"
proof -
  have "(\<forall>dy\<in>{0..h - 1}. \<forall>dx\<in>{0..w - 1}. (y + dy, x + dx) \<notin> g)
      \<longleftrightarrow> cellsOf \<lparr>x_pos = x, y_pos = y, width = w, height = h\<rparr> \<inter> g = {}"
  proof
    assume a: "\<forall>dy\<in>{0..h - 1}. \<forall>dx\<in>{0..w - 1}. (y + dy, x + dx) \<notin> g"
    show "cellsOf \<lparr>x_pos = x, y_pos = y, width = w, height = h\<rparr> \<inter> g = {}"
    proof (rule ccontr)
      assume "cellsOf \<lparr>x_pos = x, y_pos = y, width = w, height = h\<rparr> \<inter> g \<noteq> {}"
      then obtain r c where rc: "(r, c) \<in> g" "y \<le> r" "r < y + h" "x \<le> c" "c < x + w"
        by (auto simp: cellsOf_def)
      then have "r - y \<in> {0..h - 1}" "c - x \<in> {0..w - 1}" by simp_all
      with a have "(y + (r - y), x + (c - x)) \<notin> g" by blast
      with rc show False by simp
    qed
  next
    assume e: "cellsOf \<lparr>x_pos = x, y_pos = y, width = w, height = h\<rparr> \<inter> g = {}"
    show "\<forall>dy\<in>{0..h - 1}. \<forall>dx\<in>{0..w - 1}. (y + dy, x + dx) \<notin> g"
    proof (intro ballI notI)
      fix dy dx assume "dy \<in> {0..h - 1}" "dx \<in> {0..w - 1}" and m: "(y + dy, x + dx) \<in> g"
      then have "(y + dy, x + dx) \<in> cellsOf \<lparr>x_pos = x, y_pos = y, width = w, height = h\<rparr>"
        by (simp add: cellsOf_def)
      with e m show False by blast
    qed
  qed
  then show ?thesis
    by (auto simp: canPlace_def inColumns_def list_all_iff)
qed

lemma overlaps_cells: "overlaps a b \<longleftrightarrow> cellsOf a \<inter> cellsOf b \<noteq> {}"
proof
  assume o: "overlaps a b"
  then have "(max (y_pos a) (y_pos b), max (x_pos a) (x_pos b)) \<in> cellsOf a \<inter> cellsOf b"
    by (simp add: overlaps_def cellsOf_def)
  then show "cellsOf a \<inter> cellsOf b \<noteq> {}" by blast
next
  assume "cellsOf a \<inter> cellsOf b \<noteq> {}"
  then obtain r c where "(r, c) \<in> cellsOf a" "(r, c) \<in> cellsOf b" by auto
  then show "overlaps a b"
    by (simp add: overlaps_def cellsOf_def)
qed

lemma scanRows_None:
  "scanRows g w h ys = None \<longleftrightarrow> (\<forall>y\<in>set ys. \<forall>x\<in>{0..GRID_COLS - w}. \<not> canPlace g x y w h)"
proof (induction ys)
  case Nil
  then show ?case by simp
next
  case (Cons y ys)
  show ?case
  proof (cases "find (\<lambda>x. canPlace g x y w h) [0..GRID_COLS - w]")
    case None
    then have "\<forall>x\<in>{0..GRID_COLS - w}. \<not> canPlace g x y w h"
      by (auto simp: find_None_iff)
    then show ?thesis using Cons by (simp add: None)
  next
    case (Some x)
    then have "x \<in> {0..GRID_COLS - w}" "canPlace g x y w h"
      by (auto simp: find_Some_iff)
    then show ?thesis using Some by auto
  qed
qed

lemma scanRows_Some:
  "scanRows g w h ys = Some p \<Longrightarrow>
     snd p \<in> set ys \<and> 0 \<le> fst p \<and> fst p \<le> GRID_COLS - w \<and> canPlace g (fst p) (snd p) w h"
  by (induction ys) (auto simp: find_Some_iff split: option.splits)



subsection \<open>One step of the run\<close>

lemma placeItem_eq:
  "placeItem item st =
     (AList.update (fst item) (placedLayout item st) (fst st),
      snd st \<union> cellsOf (placedLayout item st))"
  by (simp add: placeItem_def placedLayout_def chosenPosition_def Let_def occupy_cells
      split: option.splits)

lemma placedLayout_size [simp]:
  "width (placedLayout item st) = width (snd item)"
  "height (placedLayout item st) = height (snd item)"
  by (simp_all add: placedLayout_def Let_def)


lemma fold_placeItem_keys:
  "fst ` set (fst (fold placeItem its st)) = fst ` set (fst st) \<union> fst ` set its"
  by (induction its arbitrary: st) (auto simp: placeItem_eq dom_update)

lemma fold_placeItem_distinct:
  "distinct (map fst (fst st)) \<Longrightarrow> distinct (map fst (fst (fold placeItem its st)))"
  by (induction its arbitrary: st) (auto simp: placeItem_eq distinct_update)

lemma fold_placeItem_sizes:
  "map_of (fst (fold placeItem its st)) k = Some l' \<Longrightarrow>
     (\<exists>l. (k, l) \<in> set its \<and> width l' = width l \<and> height l' = height l)
     \<or> map_of (fst st) k = Some l'"
proof (induction its arbitrary: st)
  case Nil
  then show ?case by simp
next
  case (Cons item its)
  from Cons.prems have "map_of (fst (fold placeItem its (placeItem item st))) k = Some l'"
    by simp
  from Cons.IH [OF this] show ?case
  proof
    assume "\<exists>l. (k, l) \<in> set its \<and> width l' = width l \<and> height l' = height l"
    then show ?thesis by auto
  next
    assume a: "map_of (fst (placeItem item st)) k = Some l'"
    show ?thesis
    proof (cases "k = fst item")
      case True
      with a have "l' = placedLayout item st"
        by (simp add: placeItem_eq update_conv')
      then have "(k, snd item) \<in> set (item # its) \<and> width l' = width (snd item) \<and> height l' = height (snd item)"
        using True by simp
      then show ?thesis by blast
    next
      case False
      with a show ?thesis by (simp add: placeItem_eq update_conv')
    qed
  qed
qed

lemma set_layoutItems:
  "set (layoutItems layouts visibleKeys) =
     (\<lambda>key. (key, the (map_of layouts key))) ` {key \<in> set visibleKeys. map_of layouts key \<noteq> None}"
  by (auto simp: layoutItems_def)

lemma layoutItems_lookup:
  "(k, l) \<in> set (layoutItems layouts visibleKeys) \<longleftrightarrow>
     k \<in> set visibleKeys \<and> map_of layouts k = Some l"
  by (auto simp: set_layoutItems)

lemma layoutItems_keys:
  "fst ` set (layoutItems layouts visibleKeys) =
     {key \<in> set visibleKeys. map_of layouts key \<noteq> None}"
  by (force simp: set_layoutItems)

subsection \<open>Runs without the unchecked branch\<close>



subsection \<open>The grid scan is the rectangle test\<close>

lemma canPlace_fitsAt:
  assumes "g = \<Union> (cellsOf ` set placed)"
  shows "canPlace g x y w h = fitsAt placed x y w h"
proof -
  let ?l = "\<lparr>x_pos = x, y_pos = y, width = w, height = h\<rparr>"
  have "cellsOf ?l \<inter> g = {} \<longleftrightarrow> (\<forall>r\<in>set placed. \<not> overlaps ?l r)"
    unfolding overlaps_cells assms by blast
  then show ?thesis
    by (simp add: canPlace_cells fitsAt_def Let_def list_all_iff)
qed

lemma find_row_append:
  "find Q (map (Pair y) xs @ zs) =
     (case find (\<lambda>x. Q (y, x)) xs of Some x \<Rightarrow> Some (y, x) | None \<Rightarrow> find Q zs)"
  by (induction xs) auto

lemma scanRows_find:
  "scanRows g w h ys =
     map_option (\<lambda>p. (snd p, fst p))
       (find (\<lambda>p. canPlace g (snd p) (fst p) w h) (List.product ys [0..GRID_COLS - w]))"
  by (induction ys) (auto simp: find_row_append split: option.splits)

lemma findSlot_firstFit:
  assumes "g = \<Union> (cellsOf ` set placed)"
  shows "findSlot g w h = map_option (\<lambda>p. (snd p, fst p)) (firstFitPosition placed w h)"
  by (simp add: findSlot_def scanRows_find firstFitPosition_def canPlace_fitsAt [OF assms])

lemma firstFitAll_fold:
  assumes "firstFitAll its result placed = Some R" and "g = \<Union> (cellsOf ` set placed)"
  shows "fst (fold placeItem its (result, g)) = R"
  using assms
proof (induction its arbitrary: result placed g)
  case Nil
  then show ?case by simp
next
  case (Cons item its)
  let ?w = "width (snd item)" and ?h = "height (snd item)"
  from Cons.prems(1) obtain p where
    p: "firstFitPosition placed ?w ?h = Some p"
    and rest: "firstFitAll its
        (AList.update (fst item) \<lparr>x_pos = snd p, y_pos = fst p, width = ?w, height = ?h\<rparr> result)
        (\<lparr>x_pos = snd p, y_pos = fst p, width = ?w, height = ?h\<rparr> # placed) = Some R"
    by (auto simp: Let_def split: option.splits)
  let ?l = "\<lparr>x_pos = snd p, y_pos = fst p, width = ?w, height = ?h\<rparr>"
  have slot: "findSlot g ?w ?h = Some (snd p, fst p)"
    by (simp add: findSlot_firstFit [OF Cons.prems(2)] p)
  have step: "placeItem item (result, g) = (AList.update (fst item) ?l result, g \<union> cellsOf ?l)"
    by (simp add: placeItem_def slot Let_def occupy_cells)
  have "g \<union> cellsOf ?l = \<Union> (cellsOf ` set (?l # placed))"
    using Cons.prems(2) by auto
  from Cons.IH [OF rest this] show ?case
    by (simp add: step)
qed

lemma allScanned_firstFitAll:
  assumes "g = \<Union> (cellsOf ` set placed)"
  shows "allScanned g its \<longleftrightarrow> firstFitAll its result placed \<noteq> None"
  using assms
proof (induction its arbitrary: result placed g)
  case Nil
  then show ?case by simp
next
  case (Cons item its)
  let ?w = "width (snd item)" and ?h = "height (snd item)"
  show ?case
  proof (cases "firstFitPosition placed ?w ?h")
    case None
    then show ?thesis by (simp add: findSlot_firstFit [OF Cons.prems])
  next
    case (Some p)
    let ?l = "\<lparr>x_pos = snd p, y_pos = fst p, width = ?w, height = ?h\<rparr>"
    have "occupy g (snd p) (fst p) ?w ?h = \<Union> (cellsOf ` set (?l # placed))"
      using Cons.prems by (auto simp: occupy_cells)
    from Cons.IH [OF this] show ?thesis
      by (simp add: findSlot_firstFit [OF Cons.prems] Some Let_def)
  qed
qed

text \<open>The comparator of the code orders the items as the reference does.\<close>

lemma sortKey_le: "sortKey a \<le> sortKey b \<longleftrightarrow> positionLe (snd a) (snd b)"
  by (auto simp: sortKey_def positionLe_def less_eq_prod_def)

lemma insort_insertByPosition: "insort_key sortKey item items = insertByPosition item items"
  by (induction items) (simp_all add: sortKey_le)

lemma visibleWithLayout_eq:
  "visibleWithLayout layouts visibleKeys =
     map (\<lambda>key. (key, the (map_of layouts key)))
       (filter (\<lambda>key. map_of layouts key \<noteq> None) visibleKeys)"
  unfolding visibleWithLayout_def
  by (induction visibleKeys) (auto simp: List.map_filter_simps)

lemma layoutItems_reference: "layoutItems layouts visibleKeys = referenceItems layouts visibleKeys"
proof -
  have "foldr (insort_key sortKey) xs [] = foldr insertByPosition xs []"
    for xs :: "('a \<times> WidgetLayout) list"
    by (induction xs) (simp_all add: insort_insertByPosition)
  then show ?thesis
    by (simp add: layoutItems_def referenceItems_def visibleWithLayout_eq sort_key_def)
qed

lemma placedByScan_reference:
  "placedByScan layouts visibleKeys \<longleftrightarrow> firstFitReference layouts visibleKeys \<noteq> None"
  unfolding placedByScan_def firstFitReference_def layoutItems_reference
  by (rule allScanned_firstFitAll) simp

subsection \<open>The example configurations, evaluated\<close>

lemma exampleShuffled_ref:
  "firstFitReference exampleShuffled [''c'', ''b'', ''d'', ''a''] =
     Some [(''a'', \<lparr>x_pos = 0, y_pos = 0, width = 6, height = 1\<rparr>),
           (''d'', \<lparr>x_pos = 6, y_pos = 0, width = 1, height = 1\<rparr>),
           (''b'', \<lparr>x_pos = 0, y_pos = 1, width = 7, height = 1\<rparr>),
           (''c'', \<lparr>x_pos = 7, y_pos = 0, width = 2, height = 2\<rparr>)]"
  by code_simp

lemma exampleThree_scan: "placedByScan exampleThree [''a'', ''b'', ''c'']"
  by code_simp





lemma examplePair_out: "compactLayoutsUtil examplePair [''a'', ''b''] =
   [(''a'', \<lparr>x_pos = 0, y_pos = 0, width = 6, height = 1\<rparr>),
    (''b'', \<lparr>x_pos = 6, y_pos = 0, width = 6, height = 1\<rparr>)]"
  by code_simp

subsection \<open>Inputs on which the scan places every widget\<close>

text \<open>
  When every visible widget is at most 12 wide and at least 1 high and the heights of the
  visible widgets add up to at most 100, the scan finds a position for each of them: all
  occupied cells lie in rows below the sum of the heights placed so far.
\<close>

lemma findSlot_exists:
  assumes g: "g \<subseteq> rowsBelow n" and n: "0 \<le> n" "n \<le> 99" and w: "w \<le> 12"
  shows "\<exists>p. findSlot g w h = Some p \<and> snd p \<le> n"
proof -
  have c: "canPlace g 0 n w h"
    using g w by (auto simp: canPlace_cells inColumns_def GRID_COLS_def cellsOf_def rowsBelow_def)
  have m: "(0::int) \<in> {0..GRID_COLS - w}"
    using w by (simp add: GRID_COLS_def)
  have "n \<in> set [0..99]"
    using n by simp
  with c m have "scanRows g w h [0..99] \<noteq> None"
    unfolding scanRows_None by blast
  then obtain p where p: "findSlot g w h = Some p"
    by (auto simp: findSlot_def)
  have "snd p \<le> n"
  proof (rule ccontr)
    assume "\<not> snd p \<le> n"
    then have gt: "n < snd p" by simp
    from p have "scanRows g w h [0..99] = Some p" by (simp add: findSlot_def)
    moreover have "[0..99] = [0..n] @ [n + 1..99]"
      using n by (simp add: upto_split2 [of 0 n 99])
    ultimately have s: "scanRows g w h ([0..n] @ [n + 1..99]) = Some p" by simp
    have "scanRows g w h (as @ bs) = (case scanRows g w h as of Some q \<Rightarrow> Some q | None \<Rightarrow> scanRows g w h bs)"
      for as bs
      by (induction as) (auto split: option.splits)
    with s have "(case scanRows g w h [0..n] of Some q \<Rightarrow> Some q | None \<Rightarrow> scanRows g w h [n + 1..99]) = Some p"
      by simp
    moreover have "n \<in> set [0..n]"
      using n by simp
    with c m have "scanRows g w h [0..n] \<noteq> None"
      unfolding scanRows_None by blast
    ultimately have "scanRows g w h [0..n] = Some p"
      by (auto split: option.splits)
    from scanRows_Some [OF this] have "snd p \<le> n" by simp
    with gt show False by simp
  qed
  with p show ?thesis by blast
qed

lemma allScanned_small:
  assumes "\<forall>item \<in> set its. width (snd item) \<le> 12 \<and> 1 \<le> height (snd item)"
    and "g \<subseteq> rowsBelow n" and "0 \<le> n"
    and "n + sum_list (map (\<lambda>item. height (snd item)) its) \<le> 100"
  shows "allScanned g its"
  using assms
proof (induction its arbitrary: g n)
  case Nil
  then show ?case by simp
next
  case (Cons item its)
  let ?w = "width (snd item)" and ?h = "height (snd item)"
  from Cons.prems(1) have w: "?w \<le> 12" and h: "1 \<le> ?h" by simp_all
  have rest: "0 \<le> sum_list (map (\<lambda>item. height (snd item)) its)"
    using Cons.prems(1) by (intro sum_list_nonneg) auto
  with Cons.prems(4) h have n99: "n \<le> 99" by simp
  from findSlot_exists [OF Cons.prems(2) Cons.prems(3) n99 w, of ?h]
  obtain p where p: "findSlot g ?w ?h = Some p" and le: "snd p \<le> n" by blast
  have "occupy g (fst p) (snd p) ?w ?h \<subseteq> rowsBelow (n + ?h)"
    using Cons.prems(2) le h by (auto simp: occupy_cells cellsOf_def rowsBelow_def)
  moreover have "0 \<le> n + ?h" using Cons.prems(3) h by simp
  moreover have "n + ?h + sum_list (map (\<lambda>item. height (snd item)) its) \<le> 100"
    using Cons.prems(4) by simp
  moreover have "\<forall>item \<in> set its. width (snd item) \<le> 12 \<and> 1 \<le> height (snd item)"
    using Cons.prems(1) by simp
  ultimately have "allScanned (occupy g (fst p) (snd p) ?w ?h) its"
    using Cons.IH by blast
  then show ?case by (simp add: p)
qed

lemma placedByScan_small:
  assumes "\<forall>key \<in> set visibleKeys. \<forall>l. map_of layouts key = Some l \<longrightarrow> width l \<le> 12 \<and> 1 \<le> height l"
    and "sum_list (map (\<lambda>key. height (the (map_of layouts key)))
           (filter (\<lambda>key. map_of layouts key \<noteq> None) visibleKeys)) \<le> 100"
  shows "placedByScan layouts visibleKeys"
proof -
  let ?ys = "map (\<lambda>key. (key, the (map_of layouts key)))
      (filter (\<lambda>key. map_of layouts key \<noteq> None) visibleKeys)"
  have "sum_list (map (\<lambda>item. height (snd item)) (layoutItems layouts visibleKeys))
      = sum_mset (image_mset (\<lambda>item. height (snd item)) (mset (sort_key sortKey ?ys)))"
    unfolding layoutItems_def by (simp only: sum_mset_sum_list [symmetric] mset_map)
  also have "\<dots> = sum_list (map (\<lambda>item. height (snd item)) ?ys)"
    by (simp only: mset_sort sum_mset_sum_list [symmetric] mset_map)
  also have "map (\<lambda>item. height (snd item)) ?ys
      = map (\<lambda>key. height (the (map_of layouts key)))
          (filter (\<lambda>key. map_of layouts key \<noteq> None) visibleKeys)"
    by (simp only: map_map comp_def snd_conv)
  finally have s: "0 + sum_list (map (\<lambda>item. height (snd item)) (layoutItems layouts visibleKeys)) \<le> 100"
    using assms(2) by simp
  have a: "\<forall>item \<in> set (layoutItems layouts visibleKeys). width (snd item) \<le> 12 \<and> 1 \<le> height (snd item)"
    using assms(1) by (auto simp: set_layoutItems)
  have "allScanned {} (layoutItems layouts visibleKeys)"
    by (rule allScanned_small [OF a _ _ s]) simp_all
  then show ?thesis by (simp add: placedByScan_def)
qed

subsection \<open>Placement by the scan is free of overlap and inside the columns\<close>




subsection \<open>Compaction is greedy first-fit\<close>

lemma layoutItems_ascending:
  "sorted_wrt (\<lambda>a b. positionLe (snd a) (snd b)) (layoutItems layouts visibleKeys)"
proof -
  have "sorted (map sortKey (layoutItems layouts visibleKeys))"
    by (simp add: layoutItems_def)
  then show ?thesis
    by (simp add: sorted_wrt_map sortKey_le)
qed

lemma layoutItems_perm:
  "mset (layoutItems layouts visibleKeys) = mset (visibleWithLayout layouts visibleKeys)"
  by (simp add: layoutItems_def visibleWithLayout_eq)

text \<open>
  Claim C2.  The widgets that \<open>compactLayoutsUtil\<close> processes are the visible keys that
  have a layout, each with its input layout, and they are processed in ascending order of
  the input position: of two processed widgets the earlier has the smaller \<open>y\<close>, or the
  same \<open>y\<close> and an \<open>x\<close> that is not larger.  The reference \<open>firstFitReference\<close> sorts
  the visible widgets by \<open>(y, x)\<close> of the input and gives each, in that order, the first
  position in rows 0 to 99 and columns 0 to 12 - w at which its rectangle is inside the
  columns and overlaps no rectangle placed before.  Whenever the reference places every
  widget (it returns \<open>Some R\<close>), \<open>compactLayoutsUtil\<close> returns exactly that arrangement
  \<open>R\<close>: the same keys in the same order with the same layouts.
\<close>

theorem compact_is_first_fit:
  "sorted_wrt (\<lambda>a b. positionLe (snd a) (snd b)) (layoutItems layouts visibleKeys)
   \<and> mset (layoutItems layouts visibleKeys) = mset (visibleWithLayout layouts visibleKeys)
   \<and> (firstFitReference layouts visibleKeys = Some R \<longrightarrow>
        compactLayoutsUtil layouts visibleKeys = R)"
proof (intro conjI impI)
  show "sorted_wrt (\<lambda>a b. positionLe (snd a) (snd b)) (layoutItems layouts visibleKeys)"
    by (rule layoutItems_ascending)
  show "mset (layoutItems layouts visibleKeys) = mset (visibleWithLayout layouts visibleKeys)"
    by (rule layoutItems_perm)
  assume "firstFitReference layouts visibleKeys = Some R"
  then have "firstFitAll (layoutItems layouts visibleKeys) [] [] = Some R"
    by (simp add: firstFitReference_def layoutItems_reference)
  then show "compactLayoutsUtil layouts visibleKeys = R"
    unfolding compactLayoutsUtil_def
    by (rule firstFitAll_fold) simp
qed

text \<open>
  The theorem at four widgets whose keys and layouts are listed out of order.  In
  \<open>(y, x)\<close> order they are \<open>a\<close>, \<open>d\<close>, \<open>b\<close>, \<open>c\<close>; \<open>b\<close> (7 wide) does not fit in row 0
  and \<open>c\<close> (2 by 2) takes the first gap of row 0 that is free in row 1 as well.
\<close>

theorem compact_is_first_fit_witness:
  "firstFitReference exampleShuffled [''c'', ''b'', ''d'', ''a''] =
     Some [(''a'', \<lparr>x_pos = 0, y_pos = 0, width = 6, height = 1\<rparr>),
           (''d'', \<lparr>x_pos = 6, y_pos = 0, width = 1, height = 1\<rparr>),
           (''b'', \<lparr>x_pos = 0, y_pos = 1, width = 7, height = 1\<rparr>),
           (''c'', \<lparr>x_pos = 7, y_pos = 0, width = 2, height = 2\<rparr>)]
   \<and> compactLayoutsUtil exampleShuffled [''c'', ''b'', ''d'', ''a''] =
     [(''a'', \<lparr>x_pos = 0, y_pos = 0, width = 6, height = 1\<rparr>),
      (''d'', \<lparr>x_pos = 6, y_pos = 0, width = 1, height = 1\<rparr>),
      (''b'', \<lparr>x_pos = 0, y_pos = 1, width = 7, height = 1\<rparr>),
      (''c'', \<lparr>x_pos = 7, y_pos = 0, width = 2, height = 2\<rparr>)]"
  using compact_is_first_fit [THEN conjunct2, THEN conjunct2, THEN mp, OF exampleShuffled_ref]
    exampleShuffled_ref
  by simp

subsection \<open>Compaction moves widgets and nothing else\<close>

text \<open>
  Claim C3.  The keys of the result of \<open>compactLayoutsUtil\<close> are exactly the visible
  keys that have an entry in the input, each once, and every layout of the result has
  the width and the height of the input layout of its key.
\<close>

theorem compact_frame:
  "fst ` set (compactLayoutsUtil layouts visibleKeys) =
      {key \<in> set visibleKeys. map_of layouts key \<noteq> None}
   \<and> distinct (map fst (compactLayoutsUtil layouts visibleKeys))
   \<and> (\<forall>key l'. map_of (compactLayoutsUtil layouts visibleKeys) key = Some l' \<longrightarrow>
         (\<exists>l. map_of layouts key = Some l \<and> width l' = width l \<and> height l' = height l))"
proof (intro conjI allI impI)
  show "fst ` set (compactLayoutsUtil layouts visibleKeys) =
      {key \<in> set visibleKeys. map_of layouts key \<noteq> None}"
    by (simp add: compactLayoutsUtil_def fold_placeItem_keys layoutItems_keys)
next
  show "distinct (map fst (compactLayoutsUtil layouts visibleKeys))"
    by (simp add: compactLayoutsUtil_def fold_placeItem_distinct)
next
  fix key l'
  assume "map_of (compactLayoutsUtil layouts visibleKeys) key = Some l'"
  then have "(\<exists>l. (key, l) \<in> set (layoutItems layouts visibleKeys) \<and> width l' = width l \<and> height l' = height l)
     \<or> map_of (fst (([], {}) :: 'a WidgetLayoutConfig \<times> grid)) key = Some l'"
    unfolding compactLayoutsUtil_def by (rule fold_placeItem_sizes)
  then show "\<exists>l. map_of layouts key = Some l \<and> width l' = width l \<and> height l' = height l"
    by (auto simp: layoutItems_lookup)
qed

text \<open>
  The theorem at the two-widget example with the visible keys \<open>a\<close> and \<open>z\<close>: only
  \<open>a\<close> has a layout, and it keeps its 6-by-1 size.
\<close>

theorem compact_frame_witness:
  "fst ` set (compactLayoutsUtil examplePair [''a'', ''z'']) = {''a''}
   \<and> (\<exists>l'. map_of (compactLayoutsUtil examplePair [''a'', ''z'']) ''a'' = Some l'
         \<and> width l' = 6 \<and> height l' = 1)"
proof -
  note t = compact_frame [of examplePair "[''a'', ''z'']"]
  have k: "{key \<in> set [''a'', ''z'']. map_of examplePair key \<noteq> None} = {''a''}"
    by (auto simp: examplePair_def)
  from t k have d: "fst ` set (compactLayoutsUtil examplePair [''a'', ''z'']) = {''a''}"
    by simp
  then obtain l' where l: "map_of (compactLayoutsUtil examplePair [''a'', ''z'']) ''a'' = Some l'"
    by (metis insertI1 map_of_eq_None_iff not_Some_eq)
  with t obtain l where "map_of examplePair ''a'' = Some l" "width l' = width l" "height l' = height l"
    by blast
  then have "width l' = 6 \<and> height l' = 1"
    by (auto simp: examplePair_def)
  with d l show ?thesis by blast
qed

subsection \<open>A second pass\<close>

lemma placeItem_shape:
  "itemShape a = itemShape b \<Longrightarrow> placeItem a st = placeItem b st"
  by (simp add: itemShape_def placeItem_def)

lemma fold_placeItem_shape:
  "map itemShape its = map itemShape its' \<Longrightarrow> fold placeItem its st = fold placeItem its' st"
proof (induction its arbitrary: its' st)
  case Nil
  then show ?case by simp
next
  case (Cons a its)
  then obtain b bs where b: "its' = b # bs" "itemShape a = itemShape b"
    "map itemShape its = map itemShape bs"
    by (cases its') auto
  then show ?case using Cons.IH [of bs] by (simp add: placeItem_shape [of a b])
qed

lemma compact_lookup_iff:
  "map_of (compactLayoutsUtil layouts visibleKeys) k \<noteq> None \<longleftrightarrow>
     k \<in> set visibleKeys \<and> map_of layouts k \<noteq> None"
proof -
  have "map_of (compactLayoutsUtil layouts visibleKeys) k \<noteq> None \<longleftrightarrow>
      k \<in> fst ` set (compactLayoutsUtil layouts visibleKeys)"
    by (simp add: map_of_eq_None_iff)
  also have "\<dots> \<longleftrightarrow> k \<in> set visibleKeys \<and> map_of layouts k \<noteq> None"
    by (simp add: compactLayoutsUtil_def fold_placeItem_keys layoutItems_keys)
  finally show ?thesis .
qed

lemma compact_lookup_size:
  assumes "map_of (compactLayoutsUtil layouts visibleKeys) k = Some l'"
  shows "\<exists>l. map_of layouts k = Some l \<and> width l' = width l \<and> height l' = height l"
proof -
  from assms have "(\<exists>l. (k, l) \<in> set (layoutItems layouts visibleKeys) \<and> width l' = width l \<and> height l' = height l)
     \<or> map_of (fst (([], {}) :: 'a WidgetLayoutConfig \<times> grid)) k = Some l'"
    unfolding compactLayoutsUtil_def by (rule fold_placeItem_sizes)
  then show ?thesis by (auto simp: layoutItems_lookup)
qed

lemma secondItems_shape:
  "map itemShape (secondItems layouts visibleKeys) = map itemShape (layoutItems layouts visibleKeys)"
proof -
  have "itemShape (fst item, the (map_of (compactLayoutsUtil layouts visibleKeys) (fst item))) = itemShape item"
    if "item \<in> set (layoutItems layouts visibleKeys)" for item
  proof -
    obtain k l where item: "item = (k, l)" by (cases item)
    with that have kl: "k \<in> set visibleKeys" "map_of layouts k = Some l"
      by (simp_all add: layoutItems_lookup)
    then have "map_of (compactLayoutsUtil layouts visibleKeys) k \<noteq> None"
      unfolding compact_lookup_iff by simp
    then obtain l' where l': "map_of (compactLayoutsUtil layouts visibleKeys) k = Some l'"
      by blast
    from compact_lookup_size [OF l'] kl have "width l' = width l" "height l' = height l"
      by simp_all
    then show ?thesis by (simp add: itemShape_def item l')
  qed
  then show ?thesis by (simp add: secondItems_def)
qed

lemma secondItems_sorted:
  assumes "sorted_wrt (<) (map sortKey (secondItems layouts visibleKeys))"
  shows "layoutItems (compactLayoutsUtil layouts visibleKeys) visibleKeys = secondItems layouts visibleKeys"
proof -
  let ?R = "compactLayoutsUtil layouts visibleKeys"
  let ?fks = "filter (\<lambda>key. map_of layouts key \<noteq> None) visibleKeys"
  let ?xs = "map (\<lambda>key. (key, the (map_of ?R key))) ?fks"
  have f: "filter (\<lambda>key. map_of ?R key \<noteq> None) visibleKeys = ?fks"
    unfolding compact_lookup_iff by (rule filter_cong) simp_all
  let ?f = "\<lambda>item :: 'a \<times> WidgetLayout. (fst item, the (map_of ?R (fst item)))"
  let ?ys = "map (\<lambda>key. (key, the (map_of layouts key))) ?fks"
  have "mset (secondItems layouts visibleKeys) = image_mset ?f (mset (sort_key sortKey ?ys))"
    unfolding secondItems_def layoutItems_def by (simp only: mset_map)
  also have "\<dots> = mset (map ?f ?ys)"
    by (simp only: mset_sort mset_map)
  also have "map ?f ?ys = ?xs"
    by (simp only: map_map comp_def fst_conv)
  finally have m: "mset ?xs = mset (secondItems layouts visibleKeys)"
    by simp
  from assms have s: "sorted (map sortKey (secondItems layouts visibleKeys))"
    and d: "distinct (map sortKey (secondItems layouts visibleKeys))"
    by (simp_all add: strict_sorted_iff)
  from d have "inj_on sortKey (set (secondItems layouts visibleKeys))"
    by (simp add: distinct_map)
  moreover from m have "set ?xs = set (secondItems layouts visibleKeys)"
    by (rule mset_eq_setD)
  ultimately have i: "inj_on sortKey (set ?xs)" by simp
  have "sort_key sortKey ?xs = secondItems layouts visibleKeys"
    using m i s by (rule sort_key_inj_key_eq)
  then show ?thesis unfolding layoutItems_def f .
qed

lemma examplePair_ordered: "sorted_wrt (<) (passPositions examplePair [''a'', ''b''])"
  by code_simp

lemma exampleThree_out:
  "compactLayoutsUtil exampleThree [''a'', ''b'', ''c''] =
     [(''a'', \<lparr>x_pos = 0, y_pos = 0, width = 6, height = 1\<rparr>),
      (''b'', \<lparr>x_pos = 0, y_pos = 1, width = 7, height = 1\<rparr>),
      (''c'', \<lparr>x_pos = 7, y_pos = 0, width = 2, height = 2\<rparr>)]"
  by code_simp

text \<open>
  Claim C4, as the code has it.  When the positions given by the first pass, read in the
  order in which the first pass processed the widgets, are strictly increasing in
  \<open>(y, x)\<close>, the second pass processes the widgets in the same order and returns the
  result of the first pass unchanged.
\<close>

theorem compact_idempotent_when_ordered:
  assumes "sorted_wrt (<) (passPositions layouts visibleKeys)"
  shows "compactLayoutsUtil (compactLayoutsUtil layouts visibleKeys) visibleKeys
           = compactLayoutsUtil layouts visibleKeys"
proof -
  from assms have "sorted_wrt (<) (map sortKey (secondItems layouts visibleKeys))"
    by (simp add: passPositions_def secondItems_def comp_def)
  then have "layoutItems (compactLayoutsUtil layouts visibleKeys) visibleKeys = secondItems layouts visibleKeys"
    by (rule secondItems_sorted)
  then have "compactLayoutsUtil (compactLayoutsUtil layouts visibleKeys) visibleKeys
      = fst (fold placeItem (secondItems layouts visibleKeys) ([], {}))"
    by (simp add: compactLayoutsUtil_def)
  also have "\<dots> = fst (fold placeItem (layoutItems layouts visibleKeys) ([], {}))"
    by (simp add: fold_placeItem_shape [OF secondItems_shape])
  finally show ?thesis by (simp add: compactLayoutsUtil_def)
qed

text \<open>The theorem at the two 6-by-1 widgets, placed at \<open>(0, 0)\<close> and \<open>(6, 0)\<close>.\<close>

theorem compact_idempotent_when_ordered_witness:
  "sorted_wrt (<) (passPositions examplePair [''a'', ''b''])
   \<and> compactLayoutsUtil (compactLayoutsUtil examplePair [''a'', ''b'']) [''a'', ''b'']
       = [(''a'', \<lparr>x_pos = 0, y_pos = 0, width = 6, height = 1\<rparr>),
          (''b'', \<lparr>x_pos = 6, y_pos = 0, width = 6, height = 1\<rparr>)]"
  using compact_idempotent_when_ordered [OF examplePair_ordered] examplePair_ordered
  by (simp add: examplePair_out)

text \<open>
  Claim C4 as stated fails.  The first pass on the three-widget example places \<open>b\<close>
  (7 wide) in row 1 and then \<open>c\<close> (2 by 2) at column 7 of row 0, because column 6 of
  row 1 is taken by \<open>b\<close>.  The second pass sorts by the new positions, so it places
  \<open>c\<close> before \<open>b\<close>: \<open>c\<close> moves to column 6 and \<open>b\<close> is pushed down to row 2.
  The first equation is the first pass, the second equation is the pass on its result.
\<close>

theorem compact_not_idempotent:
  "compactLayoutsUtil
      [(''a'', \<lparr>x_pos = 0, y_pos = 0, width = 6, height = 1\<rparr>),
       (''b'', \<lparr>x_pos = 0, y_pos = 1, width = 7, height = 1\<rparr>),
       (''c'', \<lparr>x_pos = 0, y_pos = 2, width = 2, height = 2\<rparr>)] [''a'', ''b'', ''c'']
     = [(''a'', \<lparr>x_pos = 0, y_pos = 0, width = 6, height = 1\<rparr>),
        (''b'', \<lparr>x_pos = 0, y_pos = 1, width = 7, height = 1\<rparr>),
        (''c'', \<lparr>x_pos = 7, y_pos = 0, width = 2, height = 2\<rparr>)]
   \<and> compactLayoutsUtil
      [(''a'', \<lparr>x_pos = 0, y_pos = 0, width = 6, height = 1\<rparr>),
       (''b'', \<lparr>x_pos = 0, y_pos = 1, width = 7, height = 1\<rparr>),
       (''c'', \<lparr>x_pos = 7, y_pos = 0, width = 2, height = 2\<rparr>)] [''a'', ''b'', ''c'']
     = [(''a'', \<lparr>x_pos = 0, y_pos = 0, width = 6, height = 1\<rparr>),
        (''c'', \<lparr>x_pos = 6, y_pos = 0, width = 2, height = 2\<rparr>),
        (''b'', \<lparr>x_pos = 0, y_pos = 2, width = 7, height = 1\<rparr>)]"
  by code_simp

section \<open>Properties of customize mode\<close>

subsection \<open>Cancelling restores the snapshot\<close>

lemma applyEvent_frame:
  "originalState (applyEvent ev s) = originalState s"
  by (cases ev) (simp_all add: handleLayoutChange_def togglePendingWidget_def handleWidgetRemove_def)

lemma fold_applyEvent_frame:
  "originalState (fold applyEvent evs s) = originalState s"
  by (induction evs arbitrary: s) (simp_all add: applyEvent_frame)

text \<open>
  Claim C5.  From any state, entering customize mode, then any sequence of layout changes
  and pending toggles, then cancelling, leaves \<open>visibleWidgets\<close>, \<open>widgetOrder\<close> and
  \<open>widgetLayouts\<close> as they were when the snapshot was taken, the pending set empty, the
  snapshot dropped and resize mode off.
\<close>

theorem cancel_restores_snapshot:
  "visibleWidgets (handleCancelCustomize (fold applyEvent evs (handleEnterCustomizeMode s)))
      = visibleWidgets s
   \<and> widgetOrder (handleCancelCustomize (fold applyEvent evs (handleEnterCustomizeMode s)))
      = widgetOrder s
   \<and> widgetLayouts (handleCancelCustomize (fold applyEvent evs (handleEnterCustomizeMode s)))
      = widgetLayouts s
   \<and> pendingWidgetChanges (handleCancelCustomize (fold applyEvent evs (handleEnterCustomizeMode s)))
      = []
   \<and> originalState (handleCancelCustomize (fold applyEvent evs (handleEnterCustomizeMode s)))
      = None
   \<and> \<not> isResizeMode (handleCancelCustomize (fold applyEvent evs (handleEnterCustomizeMode s)))"
proof -
  have "originalState (fold applyEvent evs (handleEnterCustomizeMode s)) =
      Some \<lparr>orig_visible = visibleWidgets s, orig_order = widgetOrder s,
            orig_layouts = widgetLayouts s\<rparr>"
    by (simp add: fold_applyEvent_frame handleEnterCustomizeMode_def)
  then show ?thesis
    by (simp add: handleCancelCustomize_def)
qed

text \<open>
  The theorem at an example state and three events; before the cancel the pending set
  holds the two toggled keys.
\<close>

theorem cancel_restores_snapshot_witness:
  "visibleWidgets (handleCancelCustomize
      (fold applyEvent [TogglePending ''c'', LayoutChange exampleThree, WidgetRemove ''a'']
         (handleEnterCustomizeMode exampleDashboard))) = [''a'', ''b'']
   \<and> pendingWidgetChanges (fold applyEvent
        [TogglePending ''c'', LayoutChange exampleThree, WidgetRemove ''a'']
         (handleEnterCustomizeMode exampleDashboard)) = [''c'', ''a'']"
  using cancel_restores_snapshot
    [of "[TogglePending ''c'', LayoutChange exampleThree, WidgetRemove ''a'']" exampleDashboard]
  by (simp add: exampleDashboard_def handleEnterCustomizeMode_def togglePendingWidget_def
      handleWidgetRemove_def handleLayoutChange_def togglePending_def)

subsection \<open>Saving applies the pending set\<close>

text \<open>The toggles keep the pending list free of repetition, as a \<^verbatim>\<open>Set\<close> is.\<close>

lemma togglePending_distinct: "distinct prev \<Longrightarrow> distinct (togglePending key prev)"
  by (simp add: togglePending_def distinct_removeAll)

lemma applyEvent_pending_distinct:
  "distinct (pendingWidgetChanges s) \<Longrightarrow> distinct (pendingWidgetChanges (applyEvent ev s))"
  by (cases ev)
    (simp_all add: handleLayoutChange_def togglePendingWidget_def handleWidgetRemove_def
      togglePending_distinct)

lemma applyPending_visible:
  "key \<in> set V \<Longrightarrow>
     applyPending V key fin =
       (filter (\<lambda>w. w \<noteq> key) (fst fin), filter (\<lambda>w. w \<noteq> key) (fst (snd fin)),
        AList.delete key (snd (snd fin)))"
  by (simp add: applyPending_def Let_def)

lemma applyPending_hidden:
  "key \<notin> set V \<Longrightarrow>
     applyPending V key fin =
       (fst fin @ [key],
        (if key \<in> set (fst (snd fin)) then fst (snd fin) else fst (snd fin) @ [key]),
        AList.update key
          \<lparr>x_pos = fst (findNextGridPosition (snd (snd fin)) 3 2),
           y_pos = snd (findNextGridPosition (snd (snd fin)) 3 2), width = 3, height = 2\<rparr>
          (snd (snd fin)))"
  by (simp add: applyPending_def Let_def)



lemma applyPending_layouts_step:
  "k \<noteq> key \<Longrightarrow> map_of (snd (snd (applyPending V key fin))) k = map_of (snd (snd fin)) k"
  by (cases "key \<in> set V")
    (simp_all add: applyPending_visible applyPending_hidden update_conv' delete_conv')


lemma applyPending_layouts_removed:
  "k \<in> set V \<Longrightarrow> k \<in> set P \<or> map_of (snd (snd fin)) k = None \<Longrightarrow>
     map_of (snd (snd (fold (applyPending V) P fin))) k = None"
proof (induction P arbitrary: fin)
  case Nil
  then show ?case by simp
next
  case (Cons key P)
  have "k \<in> set P \<or> map_of (snd (snd (applyPending V key fin))) k = None"
  proof (cases "key = k")
    case True
    then show ?thesis using Cons.prems(1) by (simp add: applyPending_visible delete_conv')
  next
    case False
    then have "map_of (snd (snd (applyPending V key fin))) k = map_of (snd (snd fin)) k"
      by (simp add: applyPending_layouts_step)
    with Cons.prems(2) False show ?thesis by auto
  qed
  with Cons.IH [OF Cons.prems(1)] show ?case by simp
qed




















subsection \<open>Loaded preferences are sanitized\<close>

lemma firstOccurrences_snoc:
  "firstOccurrences A (keys @ [k]) =
     firstOccurrences A keys @ (if k \<in> set A \<and> k \<notin> set keys then [k] else [])"
proof -
  let ?P = "\<lambda>ks i. ks ! i \<in> set A \<and> ks ! i \<notin> set (take i ks)"
  have f: "filter (?P (keys @ [k])) [0..<length keys] = filter (?P keys) [0..<length keys]"
    by (rule filter_cong) (simp_all add: nth_append)
  have m: "map (\<lambda>i. (keys @ [k]) ! i) (filter (?P keys) [0..<length keys])
      = map (\<lambda>i. keys ! i) (filter (?P keys) [0..<length keys])"
    by (rule map_cong) (simp_all add: nth_append)
  have l: "map (\<lambda>i. (keys @ [k]) ! i) (filter (?P (keys @ [k])) [length keys])
      = (if k \<in> set A \<and> k \<notin> set keys then [k] else [])"
    by simp
  have "[0..<length (keys @ [k])] = [0..<length keys] @ [length keys]"
    by simp
  then have "firstOccurrences A (keys @ [k]) =
      map (\<lambda>i. (keys @ [k]) ! i) (filter (?P (keys @ [k])) [0..<length keys])
      @ map (\<lambda>i. (keys @ [k]) ! i) (filter (?P (keys @ [k])) [length keys])"
    unfolding firstOccurrences_def by (simp only: filter_append map_append)
  also have "\<dots> = map (\<lambda>i. keys ! i) (filter (?P keys) [0..<length keys])
      @ (if k \<in> set A \<and> k \<notin> set keys then [k] else [])"
    by (simp only: f m l)
  finally show ?thesis
    unfolding firstOccurrences_def .
qed

lemma set_firstOccurrences: "set (firstOccurrences A keys) = set keys \<inter> set A"
proof (induction keys rule: rev_induct)
  case Nil
  then show ?case by (simp add: firstOccurrences_def)
next
  case (snoc k keys)
  then show ?case by (auto simp: firstOccurrences_snoc)
qed

lemma distinct_firstOccurrences: "distinct (firstOccurrences A keys)"
proof (induction keys rule: rev_induct)
  case Nil
  then show ?case by (simp add: firstOccurrences_def)
next
  case (snoc k keys)
  then show ?case by (auto simp: firstOccurrences_snoc set_firstOccurrences)
qed

lemma fold_sanitizeStep:
  "fold (sanitizeStep A) keys ({}, []) = (set (firstOccurrences A keys), firstOccurrences A keys)"
proof (induction keys rule: rev_induct)
  case Nil
  then show ?case by (simp add: firstOccurrences_def)
next
  case (snoc k keys)
  then show ?case
    by (auto simp: sanitizeStep_def firstOccurrences_snoc set_firstOccurrences)
qed

lemma sanitizeKeys_firstOccurrences:
  "sanitizeKeys A keys = firstOccurrences A keys"
  by (simp add: sanitizeKeys_def fold_sanitizeStep)

lemma exampleLoad_visible:
  "firstOccurrences (defaultWidgetKeys exampleDefaults) (nextVisibleRaw exampleDefaults (Some examplePrefs))
     = [''b'', ''c'']"
  by code_simp

lemma exampleLoad_order:
  "firstOccurrences (defaultWidgetKeys exampleDefaults) (nextOrderRaw exampleDefaults (Some examplePrefs))
     = [''a'', ''b'']"
  by code_simp

text \<open>
  Claim C10.  When the load effect runs with a signed-in user, \<open>visibleWidgets\<close> is the
  list of first occurrences of the default widget keys in the stored (or default) visible
  list, \<open>widgetOrder\<close> is the list of first occurrences of the default widget keys in the
  stored (or default) order followed by the visible keys the order does not mention; both
  hold default widget keys only, each once, and every visible key is in the order.
\<close>

theorem load_sanitizes:
  assumes "hasUser"
  shows "visibleWidgets (loadEffect DW hasUser prefs loaded s)
           = firstOccurrences (defaultWidgetKeys DW) (nextVisibleRaw DW prefs)
       \<and> widgetOrder (loadEffect DW hasUser prefs loaded s)
           = firstOccurrences (defaultWidgetKeys DW) (nextOrderRaw DW prefs)
             @ filter (\<lambda>k. k \<notin> set (nextOrderRaw DW prefs))
                 (visibleWidgets (loadEffect DW hasUser prefs loaded s))
       \<and> set (visibleWidgets (loadEffect DW hasUser prefs loaded s)) \<subseteq> set (defaultWidgetKeys DW)
       \<and> distinct (visibleWidgets (loadEffect DW hasUser prefs loaded s))
       \<and> set (widgetOrder (loadEffect DW hasUser prefs loaded s)) \<subseteq> set (defaultWidgetKeys DW)
       \<and> distinct (widgetOrder (loadEffect DW hasUser prefs loaded s))
       \<and> set (visibleWidgets (loadEffect DW hasUser prefs loaded s))
           \<subseteq> set (widgetOrder (loadEffect DW hasUser prefs loaded s))"
proof -
  let ?A = "defaultWidgetKeys DW"
  let ?v = "firstOccurrences ?A (nextVisibleRaw DW prefs)"
  let ?o = "firstOccurrences ?A (nextOrderRaw DW prefs)"
  have v: "visibleWidgets (loadEffect DW hasUser prefs loaded s) = ?v"
    using assms by (simp add: loadEffect_def Let_def sanitizeKeys_firstOccurrences)
  have "filter (\<lambda>k. k \<notin> set ?o) ?v = filter (\<lambda>k. k \<notin> set (nextOrderRaw DW prefs)) ?v"
    by (rule filter_cong) (auto simp: set_firstOccurrences)
  then have o: "widgetOrder (loadEffect DW hasUser prefs loaded s)
      = ?o @ filter (\<lambda>k. k \<notin> set (nextOrderRaw DW prefs)) ?v"
    using assms by (simp add: loadEffect_def Let_def sanitizeKeys_firstOccurrences)
  show ?thesis
    unfolding v o
    by (auto simp: set_firstOccurrences distinct_firstOccurrences)
qed

text \<open>
  The theorem at stored lists with a repeated key and an unknown key \<open>x\<close>.
\<close>

theorem load_sanitizes_witness:
  "visibleWidgets (loadEffect exampleDefaults True (Some examplePrefs) examplePair exampleDashboard)
      = [''b'', ''c'']
   \<and> widgetOrder (loadEffect exampleDefaults True (Some examplePrefs) examplePair exampleDashboard)
      = [''a'', ''b'', ''c'']"
proof -
  note t = load_sanitizes [of True exampleDefaults "Some examplePrefs" examplePair exampleDashboard, OF TrueI]
  from t have v: "visibleWidgets (loadEffect exampleDefaults True (Some examplePrefs) examplePair exampleDashboard)
      = firstOccurrences (defaultWidgetKeys exampleDefaults) (nextVisibleRaw exampleDefaults (Some examplePrefs))"
    by (rule conjunct1)
  from t have o: "widgetOrder (loadEffect exampleDefaults True (Some examplePrefs) examplePair exampleDashboard)
      = firstOccurrences (defaultWidgetKeys exampleDefaults) (nextOrderRaw exampleDefaults (Some examplePrefs))
        @ filter (\<lambda>k. k \<notin> set (nextOrderRaw exampleDefaults (Some examplePrefs)))
           (visibleWidgets (loadEffect exampleDefaults True (Some examplePrefs) examplePair exampleDashboard))"
    by (rule conjunct2 [THEN conjunct1])
  have r: "nextOrderRaw exampleDefaults (Some examplePrefs) = [''a'', ''a'', ''b'']"
    by (simp add: nextOrderRaw_def examplePrefs_def)
  show ?thesis
    unfolding o v exampleLoad_visible exampleLoad_order
    unfolding r by simp
qed

section \<open>Properties of the stored layout blob and of the lead-status filter\<close>

lemma catchAll_total: "\<exists>r. catchAll x = Inr r"
  by (cases x) (simp_all add: catchAll_def)

text \<open>
  Claim C8, as the code has it.  \<open>parseWidgetLayouts\<close> never throws: for every
  \<^verbatim>\<open>JSON.parse\<close> and every stored value it returns a value.  It returns the empty object
  for an absent value, for every falsy value (\<^verbatim>\<open>null\<close>, \<^verbatim>\<open>false\<close>, \<^verbatim>\<open>0\<close>, the empty
  string), for every stored number or boolean, and for a string that \<^verbatim>\<open>JSON.parse\<close>
  rejects.  A stored object or array is returned as it is.  A non-empty string that parses
  is answered by the parsed value when that is an object or an array, and by the empty
  object when it is a number, a string, a boolean or \<^verbatim>\<open>null\<close>.
\<close>

theorem parse_total:
  "(\<exists>config. parseWidgetLayouts JSON_parse layout_view = Inr config)
   \<and> parseWidgetLayouts JSON_parse None = Inr (JObj [])
   \<and> (\<not> truthy v \<longrightarrow> parseWidgetLayouts JSON_parse (Some v) = Inr (JObj []))
   \<and> parseWidgetLayouts JSON_parse (Some JNull) = Inr (JObj [])
   \<and> parseWidgetLayouts JSON_parse (Some (JStr [])) = Inr (JObj [])
   \<and> parseWidgetLayouts JSON_parse (Some (JNum n)) = Inr (JObj [])
   \<and> parseWidgetLayouts JSON_parse (Some (JBool b)) = Inr (JObj [])
   \<and> parseWidgetLayouts JSON_parse (Some (JObj kvs)) = Inr (JObj kvs)
   \<and> parseWidgetLayouts JSON_parse (Some (JArr vs)) = Inr (JArr vs)
   \<and> (JSON_parse s = Inl e \<longrightarrow> parseWidgetLayouts JSON_parse (Some (JStr s)) = Inr (JObj []))
   \<and> (JSON_parse s = Inr parsed \<and> s \<noteq> [] \<longrightarrow>
        parseWidgetLayouts JSON_parse (Some (JStr s)) =
          Inr (case parsed of JObj kvs' \<Rightarrow> parsed | JArr vs' \<Rightarrow> parsed | _ \<Rightarrow> JObj []))"
proof (intro conjI impI)
  show "\<exists>config. parseWidgetLayouts JSON_parse layout_view = Inr config"
  proof (cases layout_view)
    case None
    then show ?thesis by (simp add: parseWidgetLayouts_def)
  next
    case (Some v)
    show ?thesis
    proof (cases v)
      case (JStr s)
      obtain r where "catchAll (tryParse JSON_parse s) = Inr r"
        using catchAll_total by blast
      then show ?thesis
        by (cases r) (simp_all add: parseWidgetLayouts_def Some JStr)
    qed (simp_all add: parseWidgetLayouts_def Some)
  qed
next
  assume "\<not> truthy v"
  then show "parseWidgetLayouts JSON_parse (Some v) = Inr (JObj [])"
    by (simp add: parseWidgetLayouts_def)
next
  assume "JSON_parse s = Inl e"
  then show "parseWidgetLayouts JSON_parse (Some (JStr s)) = Inr (JObj [])"
    by (simp add: parseWidgetLayouts_def tryParse_def catchAll_def)
next
  assume "JSON_parse s = Inr parsed \<and> s \<noteq> []"
  then show "parseWidgetLayouts JSON_parse (Some (JStr s)) =
          Inr (case parsed of JObj kvs' \<Rightarrow> parsed | JArr vs' \<Rightarrow> parsed | _ \<Rightarrow> JObj [])"
    by (cases parsed) (simp_all add: parseWidgetLayouts_def tryParse_def catchAll_def)
qed (simp_all add: parseWidgetLayouts_def)

text \<open>
  The theorem at the stored number 0, at the legacy string \<open>grid\<close>, which the example
  parser rejects, and at the text of a one-widget configuration.
\<close>

theorem parse_total_witness:
  "\<not> truthy (JNum 0)
   \<and> parseWidgetLayouts exampleParse (Some (JNum 0)) = Inr (JObj [])
   \<and> exampleParse ''grid'' = Inl SyntaxError
   \<and> parseWidgetLayouts exampleParse (Some (JStr ''grid'')) = Inr (JObj [])
   \<and> exampleParse exampleBlob = Inr (configJson exampleSaved)
   \<and> parseWidgetLayouts exampleParse (Some (JStr exampleBlob)) = Inr (configJson exampleSaved)"
proof -
  note t = parse_total [where JSON_parse = exampleParse and v = "JNum 0" and s = "''grid''"
      and e = SyntaxError]
  note u = parse_total [where JSON_parse = exampleParse and s = exampleBlob
      and parsed = "configJson exampleSaved"]
  have z: "\<not> truthy (JNum 0)"
    by simp
  from t have "\<not> truthy (JNum 0) \<longrightarrow> parseWidgetLayouts exampleParse (Some (JNum 0)) = Inr (JObj [])"
    by blast
  with z have zero: "parseWidgetLayouts exampleParse (Some (JNum 0)) = Inr (JObj [])"
    by simp
  have h: "exampleParse ''grid'' = Inl SyntaxError"
    by (simp add: exampleParse_def exampleBlob_def)
  from t have "exampleParse ''grid'' = Inl SyntaxError \<longrightarrow>
      parseWidgetLayouts exampleParse (Some (JStr ''grid'')) = Inr (JObj [])"
    by blast
  with h have g: "parseWidgetLayouts exampleParse (Some (JStr ''grid'')) = Inr (JObj [])"
    by simp
  have k: "exampleParse exampleBlob = Inr (configJson exampleSaved)" "exampleBlob \<noteq> []"
    by (simp_all add: exampleParse_def exampleBlob_def)
  from u have "exampleParse exampleBlob = Inr (configJson exampleSaved) \<and> exampleBlob \<noteq> [] \<longrightarrow>
      parseWidgetLayouts exampleParse (Some (JStr exampleBlob)) =
        Inr (case configJson exampleSaved of JObj kvs' \<Rightarrow> configJson exampleSaved
             | JArr vs' \<Rightarrow> configJson exampleSaved | _ \<Rightarrow> JObj [])"
    by blast
  with k have "parseWidgetLayouts exampleParse (Some (JStr exampleBlob)) = Inr (configJson exampleSaved)"
    by (simp add: configJson_def)
  with z zero h g k show ?thesis by simp
qed

text \<open>
  Claim C8 as stated fails for JSON that is an array: the test
  \<^verbatim>\<open>typeof parsed === "object" && parsed !== null\<close> accepts it, so the array is returned
  and not the empty configuration.
\<close>

theorem parse_array_kept:
  "parseWidgetLayouts (\<lambda>s. if s = ''[1]'' then Inr (JArr [JNum 1]) else Inl SyntaxError)
      (Some (JStr ''[1]'')) = Inr (JArr [JNum 1])
   \<and> parseWidgetLayouts (\<lambda>s. if s = ''[1]'' then Inr (JArr [JNum 1]) else Inl SyntaxError)
      (Some (JStr ''[1]'')) \<noteq> Inr (JObj [])"
  by (simp add: parseWidgetLayouts_def tryParse_def catchAll_def)

subsection \<open>Printing and parsing a configuration\<close>

text \<open>
  The defining equation of \<open>showNat\<close> is applied by hand, since as a rewrite rule it
  applies to its own right-hand side.
\<close>

declare showNat.simps [simp del]

lemma digitChar_props:
  assumes "d < 10"
  shows "isDigit (digitChar d)" and "digitValue (digitChar d) = int d"
    and "digitChar d \<noteq> CHR 0x2D" and "digitChar d \<noteq> CHR 0x7B" and "digitChar d \<noteq> CHR 0x22"
    and "digitChar d = CHR 0x30 \<longleftrightarrow> d = 0"
proof -
  have o: "(of_char (digitChar d) :: nat) = 48 + d"
    using assms by (simp add: digitChar_def)
  show "isDigit (digitChar d)" using assms by (simp add: isDigit_def o)
  show "digitValue (digitChar d) = int d"
    by (simp add: digitValue_def o)
  have ne: "c \<noteq> c'" if "(of_char c :: nat) \<noteq> of_char c'" for c c' :: char
    using that by auto
  show "digitChar d \<noteq> CHR 0x2D" by (rule ne) (simp add: o)
  show "digitChar d \<noteq> CHR 0x7B" by (rule ne) (use assms in \<open>simp add: o\<close>)
  show "digitChar d \<noteq> CHR 0x22" by (rule ne) (simp add: o)
  show "digitChar d = CHR 0x30 \<longleftrightarrow> d = 0"
  proof
    assume "digitChar d = CHR 0x30"
    then have "(of_char (digitChar d) :: nat) = of_char (CHR 0x30)" by simp
    then show "d = 0" by (simp add: o)
  next
    assume "d = 0"
    with o have "(of_char (digitChar d) :: nat) = of_char (CHR 0x30)" by simp
    then show "digitChar d = CHR 0x30" by (simp only: of_char_eq_iff)
  qed
qed

lemma showNat_digits: "list_all isDigit (showNat n)"
proof (induction n rule: showNat.induct)
  case (1 n)
  show ?case
  proof (cases "n < 10")
    case True
    then show ?thesis by (subst showNat.simps) (simp add: digitChar_props)
  next
    case False
    then have "list_all isDigit (showNat (n div 10))" by (rule "1.IH")
    moreover have "isDigit (digitChar (n mod 10))" by (simp add: digitChar_props)
    ultimately show ?thesis using False by (subst showNat.simps) simp
  qed
qed

lemma showNat_nonempty: "showNat n \<noteq> []"
  by (subst showNat.simps) simp

lemma digitsValue_snoc: "digitsValue (ds @ [c]) = 10 * digitsValue ds + digitValue c"
  by (simp add: digitsValue_def)

lemma showNat_value: "digitsValue (showNat n) = int n"
proof (induction n rule: showNat.induct)
  case (1 n)
  show ?case
  proof (cases "n < 10")
    case True
    then show ?thesis by (subst showNat.simps) (simp add: digitsValue_def digitChar_props)
  next
    case False
    then have "digitsValue (showNat (n div 10)) = int (n div 10)" by (rule "1.IH")
    then have "digitsValue (showNat (n div 10) @ [digitChar (n mod 10)]) = 10 * int (n div 10) + int (n mod 10)"
      by (simp add: digitsValue_snoc digitChar_props)
    also have "\<dots> = int n" by (simp add: zdiv_int zmod_int)
    finally show ?thesis using False by (subst showNat.simps) simp
  qed
qed

lemma showNat_hd: "hd (showNat n) = CHR 0x30 \<Longrightarrow> n = 0"
proof (induction n rule: showNat.induct)
  case (1 n)
  show ?case
  proof (cases "n < 10")
    case True
    with "1.prems" show ?thesis by (subst (asm) showNat.simps) (simp add: digitChar_props)
  next
    case False
    have "hd (showNat n) = hd (showNat (n div 10))"
      using False by (subst showNat.simps) (simp add: showNat_nonempty)
    with "1.prems" have "n div 10 = 0" using "1.IH" [OF False] by simp
    with False show ?thesis by simp
  qed
qed

lemma showNat_no_leading_zero: "1 < length (showNat n) \<Longrightarrow> hd (showNat n) \<noteq> CHR 0x30"
proof
  assume l: "1 < length (showNat n)" and "hd (showNat n) = CHR 0x30"
  then have "n = 0" by (intro showNat_hd)
  then have "showNat n = [digitChar 0]" by (subst showNat.simps) simp
  with l show False by simp
qed

lemma showNat_hd_digit: "isDigit (hd (showNat n))"
  using showNat_digits [of n] showNat_nonempty [of n]
  by (cases "showNat n") simp_all

lemma takeDigits:
  assumes "list_all isDigit ds" and "r = [] \<or> \<not> isDigit (hd r)"
  shows "takeWhile isDigit (ds @ r) = ds" and "dropWhile isDigit (ds @ r) = r"
proof -
  from assms(2) have t: "takeWhile isDigit r = []" "dropWhile isDigit r = r"
    by (cases r; simp)+
  from assms(1) have a: "\<And>x. x \<in> set ds \<Longrightarrow> isDigit x" by (simp add: list_all_iff)
  show "takeWhile isDigit (ds @ r) = ds" by (simp add: takeWhile_append2 a t)
  show "dropWhile isDigit (ds @ r) = r" by (simp add: dropWhile_append2 a t)
qed

lemma parseNumber_showInt:
  assumes "\<bar>i\<bar> \<le> MAX_SAFE_INTEGER" and "r = [] \<or> \<not> isDigit (hd r)"
  shows "parseNumber (showInt i @ r) = Some (i, r)"
proof (cases "i < 0")
  case True
  let ?ds = "showNat (nat (- i))"
  have s: "showInt i @ r = CHR 0x2D # (?ds @ r)" using True by (simp add: showInt_def)
  have v: "digitsValue ?ds = - i" using True by (simp add: showNat_value)
  have l: "\<not> (1 < length ?ds \<and> hd ?ds = CHR 0x30)" using showNat_no_leading_zero by blast
  show ?thesis
    unfolding s parseNumber_def
    using True assms(1) l
    by (simp add: Let_def takeDigits [OF showNat_digits assms(2)] v showNat_nonempty)
next
  case False
  let ?ds = "showNat (nat i)"
  have s: "showInt i @ r = ?ds @ r" using False by (simp add: showInt_def)
  have h: "hd (?ds @ r) \<noteq> CHR 0x2D"
  proof -
    have "hd (?ds @ r) = hd ?ds" by (simp add: showNat_nonempty)
    moreover have "\<not> isDigit (CHR 0x2D)" by (simp add: isDigit_def)
    ultimately show ?thesis using showNat_hd_digit [of "nat i"] by metis
  qed
  have v: "digitsValue ?ds = i" using False by (simp add: showNat_value)
  have l: "\<not> (1 < length ?ds \<and> hd ?ds = CHR 0x30)" using showNat_no_leading_zero by blast
  show ?thesis
    unfolding s parseNumber_def
    using False assms(1) l h
    by (simp add: Let_def takeDigits [OF showNat_digits assms(2)] v showNat_nonempty)
qed

lemma plainChar_not_quote: "plainChar c \<Longrightarrow> c \<noteq> CHR 0x22"
  by (auto simp: plainChar_def)

lemma parseString_plain:
  "list_all plainChar k \<Longrightarrow> parseString (k @ CHR 0x22 # r) = Some (k, r)"
  by (induction k) (simp_all add: plainChar_not_quote)

lemma keyLike_plain: "keyLike k \<Longrightarrow> list_all plainChar k"
  by (cases k) (auto simp: keyLike_def isLetter_def plainChar_def)

lemma parse_fuel_Suc:
  "(\<forall>s r. parseValue n s = Some r \<longrightarrow> parseValue (Suc n) s = Some r) \<and>
   (\<forall>acc s q. parseMembers n acc s = Some q \<longrightarrow> parseMembers (Suc n) acc s = Some q)"
proof (induction n)
  case 0
  then show ?case by simp
next
  case (Suc n)
  then have vIH: "\<And>s r. parseValue n s = Some r \<Longrightarrow> parseValue (Suc n) s = Some r"
    and mIH: "\<And>acc s q. parseMembers n acc s = Some q \<Longrightarrow> parseMembers (Suc n) acc s = Some q"
    by blast+
  have v: "parseValue (Suc (Suc n)) s = Some r" if a: "parseValue (Suc n) s = Some r" for s r
  proof (cases s)
    case Nil
    with a show ?thesis by simp
  next
    case (Cons c cs)
    show ?thesis
    proof (cases "c = CHR 0x7B \<and> \<not> (cs \<noteq> [] \<and> hd cs = CHR 0x7D)")
      case True
      with a Cons obtain m where m: "parseMembers n [] cs = Some m" and r: "r = (JObj (fst m), snd m)"
        by (auto split: option.splits)
      from mIH [OF m] True r show ?thesis by (auto simp: Cons)
    next
      case False
      with a show ?thesis by (auto simp: Cons)
    qed
  qed
  have m: "parseMembers (Suc (Suc n)) acc s = Some q" if a: "parseMembers (Suc n) acc s = Some q" for acc s q
  proof (cases s)
    case Nil
    with a show ?thesis by simp
  next
    case (Cons c cs)
    from a Cons have c: "c = CHR 0x22" by (auto split: if_splits)
    from a Cons c obtain kr where kr: "parseString cs = Some kr"
      by (auto split: option.splits)
    from a Cons c kr have k: "keyLike (fst kr)" "snd kr \<noteq> []" "hd (snd kr) = CHR 0x3A"
      by (auto split: if_splits)
    from a Cons c kr k obtain vr where vr: "parseValue n (tl (snd kr)) = Some vr"
      by (auto split: option.splits)
    from a Cons c kr k vr have ne: "snd vr \<noteq> []"
      by (auto split: if_splits)
    note vr' = vIH [OF vr]
    show ?thesis
    proof (cases "hd (snd vr) = CHR 0x2C")
      case True
      with a Cons c kr k vr ne
      have "parseMembers n (AList.update (fst kr) (fst vr) acc) (tl (snd vr)) = Some q"
        by simp
      from mIH [OF this] show ?thesis
        using Cons c kr k vr' ne True by simp
    next
      case False
      with a Cons c kr k vr ne show ?thesis
        using vr' by (auto split: if_splits)
    qed
  qed
  from v m show ?case by blast
qed

lemma parseValue_Suc: "parseValue n s = Some r \<Longrightarrow> parseValue (Suc n) s = Some r"
  using parse_fuel_Suc by blast

lemma parseMembers_Suc: "parseMembers n acc s = Some q \<Longrightarrow> parseMembers (Suc n) acc s = Some q"
  using parse_fuel_Suc by blast

lemma parseValue_fuel: "parseValue n s = Some r \<Longrightarrow> n \<le> m \<Longrightarrow> parseValue m s = Some r"
proof (induction m)
  case 0
  then show ?case by simp
next
  case (Suc m)
  show ?case
  proof (cases "n = Suc m")
    case True
    with Suc.prems show ?thesis by simp
  next
    case False
    with Suc.prems have "n \<le> m" by simp
    with Suc have "parseValue m s = Some r" by simp
    then show ?thesis by (rule parseValue_Suc)
  qed
qed

lemma update_fresh: "k \<notin> fst ` set al \<Longrightarrow> AList.update k v al = al @ [(k, v)]"
  by (induction al) auto

lemma stringifyText_JObj: "stringifyText (JObj kvs) = CHR 0x7B # membersText kvs @ [CHR 0x7D]"
  by (simp add: membersText_def)

lemma membersText_single:
  "membersText [kv] = CHR 0x22 # fst kv @ CHR 0x22 # CHR 0x3A # stringifyText (snd kv)"
  by (simp add: membersText_def memberText_def quoteText_def)

lemma membersText_more:
  "membersText (kv # kv' # kvs) =
     CHR 0x22 # fst kv @ CHR 0x22 # CHR 0x3A # stringifyText (snd kv)
       @ CHR 0x2C # membersText (kv' # kvs)"
  by (simp add: membersText_def memberText_def quoteText_def)

lemma parseMembers_step:
  assumes k: "keyLike k"
    and v: "parseValue fuel (vt @ d # tail) = Some (v, d # tail)"
  shows "parseMembers (Suc fuel) acc (CHR 0x22 # k @ CHR 0x22 # CHR 0x3A # vt @ d # tail) =
     (if d = CHR 0x2C then parseMembers fuel (AList.update k v acc) tail
      else if d = CHR 0x7D then Some (AList.update k v acc, tail) else None)"
proof -
  have "parseString (k @ CHR 0x22 # CHR 0x3A # vt @ d # tail) = Some (k, CHR 0x3A # vt @ d # tail)"
    using k by (intro parseString_plain keyLike_plain)
  with k v show ?thesis by simp
qed

lemma parseMembers_text:
  assumes "kvs \<noteq> []" and "distinct (map fst kvs)"
    and "\<forall>kv\<in>set kvs. keyLike (fst kv) \<and> fst kv \<notin> fst ` set acc"
    and "\<forall>kv\<in>set kvs. \<forall>d tail. d = CHR 0x2C \<or> d = CHR 0x7D \<longrightarrow>
           parseValue F (stringifyText (snd kv) @ d # tail) = Some (snd kv, d # tail)"
    and "F + length kvs \<le> fuel"
  shows "parseMembers fuel acc (membersText kvs @ CHR 0x7D # rest) = Some (acc @ kvs, rest)"
  using assms
proof (induction kvs arbitrary: acc fuel)
  case Nil
  then show ?case by simp
next
  case (Cons kv kvs)
  from Cons.prems(5) obtain f where fuel: "fuel = Suc f" and f: "F + length kvs \<le> f"
    by (cases fuel) auto
  from Cons.prems(3) have k: "keyLike (fst kv)" and fresh: "fst kv \<notin> fst ` set acc"
    by simp_all
  have u: "AList.update (fst kv) (snd kv) acc = acc @ [kv]"
    using fresh by (simp add: update_fresh)
  have val: "parseValue f (stringifyText (snd kv) @ d # tail) = Some (snd kv, d # tail)"
    if "d = CHR 0x2C \<or> d = CHR 0x7D" for d tail
  proof -
    have "kv \<in> set (kv # kvs)" by simp
    with Cons.prems(4)
    have "\<forall>d tail. d = CHR 0x2C \<or> d = CHR 0x7D \<longrightarrow>
           parseValue F (stringifyText (snd kv) @ d # tail) = Some (snd kv, d # tail)"
      by (rule bspec)
    with that
    have "parseValue F (stringifyText (snd kv) @ d # tail) = Some (snd kv, d # tail)"
      by blast
    moreover from f have "F \<le> f" by simp
    ultimately show ?thesis by (rule parseValue_fuel)
  qed
  show ?case
  proof (cases kvs)
    case Nil
    have "parseMembers (Suc f) acc
        (CHR 0x22 # fst kv @ CHR 0x22 # CHR 0x3A # stringifyText (snd kv) @ CHR 0x7D # rest)
        = Some (AList.update (fst kv) (snd kv) acc, rest)"
      by (subst parseMembers_step [OF k val]) simp_all
    then show ?thesis
      by (simp add: Nil fuel membersText_single u)
  next
    case (Cons kv' kvs')
    have d: "distinct (map fst kvs)" using Cons.prems(2) by simp
    have fr: "\<forall>e\<in>set kvs. keyLike (fst e) \<and> fst e \<notin> fst ` set (acc @ [kv])"
      using Cons.prems(2,3) by (auto simp: image_iff)
    have vs: "\<forall>e\<in>set kvs. \<forall>d tail. d = CHR 0x2C \<or> d = CHR 0x7D \<longrightarrow>
           parseValue F (stringifyText (snd e) @ d # tail) = Some (snd e, d # tail)"
      using Cons.prems(4) by simp
    have ne: "kvs \<noteq> []" using Cons by simp
    have rec: "parseMembers f (acc @ [kv]) (membersText kvs @ CHR 0x7D # rest)
        = Some ((acc @ [kv]) @ kvs, rest)"
      by (rule Cons.IH [OF ne d fr vs f])
    have "parseMembers (Suc f) acc
        (CHR 0x22 # fst kv @ CHR 0x22 # CHR 0x3A # stringifyText (snd kv)
           @ CHR 0x2C # (membersText kvs @ CHR 0x7D # rest))
        = parseMembers f (AList.update (fst kv) (snd kv) acc) (membersText kvs @ CHR 0x7D # rest)"
      by (subst parseMembers_step [OF k val]) simp_all
    then show ?thesis
      by (simp add: Cons fuel membersText_more u rec [unfolded Cons])
  qed
qed

lemma parseValue_object:
  assumes "kvs \<noteq> []" and "distinct (map fst kvs)"
    and "\<forall>kv\<in>set kvs. keyLike (fst kv)"
    and "\<forall>kv\<in>set kvs. \<forall>d tail. d = CHR 0x2C \<or> d = CHR 0x7D \<longrightarrow>
           parseValue F (stringifyText (snd kv) @ d # tail) = Some (snd kv, d # tail)"
    and "F + length kvs \<le> fuel"
  shows "parseValue (Suc fuel) (stringifyText (JObj kvs) @ rest) = Some (JObj kvs, rest)"
proof -
  have m: "parseMembers fuel [] (membersText kvs @ CHR 0x7D # rest) = Some ([] @ kvs, rest)"
    using assms by (intro parseMembers_text) simp_all
  obtain kv kvs' where c: "kvs = kv # kvs'" using assms(1) by (cases kvs) auto
  have "hd (membersText kvs @ CHR 0x7D # rest) = CHR 0x22"
    unfolding c by (cases kvs') (simp_all add: membersText_single membersText_more)
  then have h: "\<not> (membersText kvs @ CHR 0x7D # rest \<noteq> [] \<and> hd (membersText kvs @ CHR 0x7D # rest) = CHR 0x7D)"
    by simp
  show ?thesis
    unfolding stringifyText_JObj using m h by simp
qed

lemma showInt_hd:
  "\<exists>c cs. showInt i = c # cs \<and> c \<noteq> CHR 0x7B \<and> c \<noteq> CHR 0x22"
proof (cases "i < 0")
  case True
  then show ?thesis by (simp add: showInt_def)
next
  case False
  obtain c cs where s: "showNat (nat i) = c # cs"
    using showNat_nonempty [of "nat i"] by (cases "showNat (nat i)") auto
  with showNat_hd_digit [of "nat i"] have "isDigit c" by simp
  then have "c \<noteq> CHR 0x7B" "c \<noteq> CHR 0x22" by (auto simp: isDigit_def)
  with s False show ?thesis by (simp add: showInt_def)
qed

lemma parseValue_number:
  assumes "\<bar>i\<bar> \<le> MAX_SAFE_INTEGER" and "d = CHR 0x2C \<or> d = CHR 0x7D"
  shows "parseValue (Suc 0) (stringifyText (JNum i) @ d # tail) = Some (JNum i, d # tail)"
proof -
  from assms(2) have "\<not> isDigit d" by (auto simp: isDigit_def)
  then have "parseNumber (showInt i @ d # tail) = Some (i, d # tail)"
    using assms(1) by (intro parseNumber_showInt) simp_all
  moreover obtain c cs where "showInt i = c # cs" "c \<noteq> CHR 0x7B" "c \<noteq> CHR 0x22"
    using showInt_hd by blast
  ultimately show ?thesis by simp
qed

lemma parseValue_layout:
  assumes "safeLayout l"
  shows "parseValue 6 (stringifyText (layoutJson l) @ rest) = Some (layoutJson l, rest)"
proof -
  let ?kvs = "[(''x'', JNum (x_pos l)), (''y'', JNum (y_pos l)),
               (''w'', JNum (width l)), (''h'', JNum (height l))]"
  have number: "parseValue (Suc 0) (showInt i @ d # tail) = Some (JNum i, d # tail)"
    if "\<bar>i\<bar> \<le> MAX_SAFE_INTEGER" and "d = CHR 0x2C \<or> d = CHR 0x7D" for i d tail
    using parseValue_number [OF that] by simp
  have k: "\<forall>kv\<in>set ?kvs. keyLike (fst kv)"
    by (simp add: keyLike_def isLetter_def)
  have v: "\<forall>kv\<in>set ?kvs. \<forall>d tail. d = CHR 0x2C \<or> d = CHR 0x7D \<longrightarrow>
           parseValue (Suc 0) (stringifyText (snd kv) @ d # tail) = Some (snd kv, d # tail)"
    using assms by (auto simp: safeLayout_def number)
  have "parseValue (Suc 5) (stringifyText (JObj ?kvs) @ rest) = Some (JObj ?kvs, rest)"
    by (rule parseValue_object [OF _ _ k v]) simp_all
  then show ?thesis by (simp add: layoutJson_def eval_nat_numeral)
qed

lemma joinComma_length:
  "\<forall>x\<in>set xs. 5 \<le> length x \<Longrightarrow> 5 * length xs \<le> length (joinComma xs)"
  by (induction xs rule: joinComma.induct) auto

lemma membersText_length:
  assumes "\<forall>kv\<in>set kvs. 2 \<le> length (stringifyText (snd kv))"
  shows "5 * length kvs \<le> length (membersText kvs)"
proof -
  have "\<forall>x\<in>set (map memberText (map (map_prod id stringifyText) kvs)). 5 \<le> length x"
    using assms by (auto simp: memberText_def quoteText_def)
  from joinComma_length [OF this] show ?thesis by (simp add: membersText_def)
qed

lemma parseText_config:
  assumes "storableConfig config"
  shows "parseText (stringifyText (configJson config)) = Some (configJson config)"
proof (cases config)
  case Nil
  then show ?thesis by (simp add: configJson_def parseText_def)
next
  case (Cons e es)
  let ?kvs = "map (\<lambda>entry. (fst entry, layoutJson (snd entry))) config"
  let ?t = "stringifyText (JObj ?kvs)"
  have ne: "?kvs \<noteq> []" using Cons by simp
  have d: "distinct (map fst ?kvs)"
    using assms by (simp add: storableConfig_def comp_def)
  have k: "\<forall>kv\<in>set ?kvs. keyLike (fst kv)"
    using assms by (auto simp: storableConfig_def list_all_iff)
  have v: "\<forall>kv\<in>set ?kvs. \<forall>d tail. d = CHR 0x2C \<or> d = CHR 0x7D \<longrightarrow>
           parseValue 6 (stringifyText (snd kv) @ d # tail) = Some (snd kv, d # tail)"
    using assms by (auto simp: storableConfig_def list_all_iff intro!: parseValue_layout)
  have "\<forall>kv\<in>set ?kvs. 2 \<le> length (stringifyText (snd kv))"
    by (auto simp: layoutJson_def)
  then have "5 * length ?kvs \<le> length (membersText ?kvs)"
    by (rule membersText_length)
  then have fuel: "6 + length ?kvs \<le> length ?t"
    using ne unfolding stringifyText_JObj by (cases ?kvs) auto
  have "parseValue (Suc (length ?t)) (?t @ []) = Some (JObj ?kvs, [])"
    by (rule parseValue_object [OF ne d k v fuel])
  then show ?thesis
    by (simp add: parseText_def configJson_def)
qed

lemma layoutJson_inj: "layoutJson a = layoutJson b \<Longrightarrow> a = b"
  by (simp add: layoutJson_def)

lemma configJson_inj: "configJson a = configJson b \<Longrightarrow> a = b"
proof -
  assume "configJson a = configJson b"
  then have m: "map (\<lambda>entry. (fst entry, layoutJson (snd entry))) a
      = map (\<lambda>entry. (fst entry, layoutJson (snd entry))) b"
    by (simp add: configJson_def)
  have "inj (\<lambda>entry :: string \<times> WidgetLayout. (fst entry, layoutJson (snd entry)))"
    by (auto simp: inj_on_def dest: layoutJson_inj)
  with m show "a = b" by (simp add: inj_map_eq_map)
qed

text \<open>
  Claim C7.  Layout persistence round-trips through the JSON blob.  Let \<^verbatim>\<open>JSON.stringify\<close>
  print every storable configuration as \<open>stringifyText\<close> does, and let \<^verbatim>\<open>JSON.parse\<close>
  return the value that \<open>parseText\<close> reads wherever \<open>parseText\<close> accepts.  Then for every
  storable configuration, \<open>parseWidgetLayouts\<close> applied to the string that
  \<^verbatim>\<open>JSON.stringify\<close> produced for it returns that configuration.  The round trip of the
  text itself is lemma \<open>parseText_config\<close>: the parser reads back what the printer wrote.
  A configuration is determined by its JSON value (\<open>configJson_inj\<close>).
\<close>

theorem layout_blob_roundtrip:
  assumes stringify: "\<And>c. storableConfig c \<Longrightarrow> JSON_stringify (configJson c) = stringifyText (configJson c)"
    and parse: "\<And>t v. parseText t = Some v \<Longrightarrow> JSON_parse t = Inr v"
    and config: "storableConfig config"
  shows "parseWidgetLayouts JSON_parse (Some (JStr (JSON_stringify (configJson config))))
           = Inr (configJson config)"
proof -
  let ?t = "stringifyText (configJson config)"
  have t: "JSON_stringify (configJson config) = ?t"
    using config by (rule stringify)
  have "JSON_parse ?t = Inr (configJson config)"
    using parseText_config [OF config] by (rule parse)
  moreover have "?t \<noteq> []"
    by (simp add: configJson_def)
  ultimately show ?thesis
    unfolding t by (simp add: parseWidgetLayouts_def tryParse_def catchAll_def configJson_def)
qed

text \<open>
  The theorem at a two-widget configuration, with \<open>stringifyText\<close> and \<open>parseFragment\<close>
  for the built-ins; the text of the configuration is evaluated.
\<close>

theorem layout_blob_roundtrip_witness:
  "storableConfig exampleTwo
   \<and> stringifyText (configJson exampleTwo) = exampleTwoBlob
   \<and> parseFragment exampleTwoBlob = Inr (configJson exampleTwo)
   \<and> parseWidgetLayouts parseFragment (Some (JStr exampleTwoBlob)) = Inr (configJson exampleTwo)"
proof -
  have s: "storableConfig exampleTwo"
    by code_simp
  have b: "stringifyText (configJson exampleTwo) = exampleTwoBlob"
    by code_simp
  have e: "parseFragment exampleTwoBlob = Inr (configJson exampleTwo)"
    by code_simp
  have p: "parseFragment t = Inr v" if "parseText t = Some v" for t v
    using that by (simp add: parseFragment_def)
  from layout_blob_roundtrip [of stringifyText parseFragment exampleTwo, OF refl p s]
  have "parseWidgetLayouts parseFragment (Some (JStr (stringifyText (configJson exampleTwo))))
      = Inr (configJson exampleTwo)" .
  with s b e show ?thesis by simp
qed

text \<open>
  Claim C9.  \<open>LeadStatusFilter\<close> renders the badge exactly when the value is not
  \<open>all\<close>, and a rendered badge shows the text \<open>1\<close>.
\<close>

theorem lead_filter_badge:
  "(badge (LeadStatusFilter v) \<noteq> None) = (v \<noteq> ''all'')
   \<and> (badge (LeadStatusFilter v) = None \<or> badge (LeadStatusFilter v) = Some ''1'')"
  by (simp add: LeadStatusFilter_def Let_def)

text \<open>The theorem at the values \<open>New\<close> and \<open>all\<close>.\<close>

theorem lead_filter_badge_witness:
  "badge (LeadStatusFilter ''New'') = Some ''1'' \<and> badge (LeadStatusFilter ''all'') = None"
  using lead_filter_badge [of "''New''"] lead_filter_badge [of "''all''"]
  by (simp add: LeadStatusFilter_def Let_def)

end
